theory Spec2Isabelle
  imports Complex_Main "HOL-Library.Char_ord" "HOL-Library.List_Lexorder"
begin

section \<open>Python values\<close>

text \<open>
  The values that travel through \<^verbatim>\<open>sdv/modeler.py\<close>: scalars, dictionaries, Python lists
  and numpy arrays. Floats are idealised as reals; \<open>NaN\<close> and \<open>None\<close> are scalars of their
  own. A dictionary is an association list in insertion order, which is the order
  \<^verbatim>\<open>dict.items()\<close> iterates in. Dictionary keys are strings (the keys of a model export
  and the column names of a table), so \<^verbatim>\<open>str(key)\<close> is the key itself.
\<close>

datatype scalar = PNone | NaN | Num real | Str string | Bool bool

datatype pyval =
    Scalar scalar
  | PyDict "(string \<times> pyval) list"
  | PyList "pyval list"
  | NdArray "pyval list"

type_synonym pydict = "(string \<times> pyval) list"

text \<open>\<^verbatim>\<open>result[key] = value\<close>: an existing key keeps its position, a new key goes last.\<close>

fun dict_set :: "pydict \<Rightarrow> string \<Rightarrow> pyval \<Rightarrow> pydict" where
  "dict_set [] key v = [(key, v)]"
| "dict_set ((k, w) # kvs) key v =
     (if k = key then (k, v) # kvs else (k, w) # dict_set kvs key v)"

text \<open>\<^verbatim>\<open>result.update(other)\<close>: the items of \<open>other\<close> are stored one by one, in order.\<close>

fun dict_update :: "pydict \<Rightarrow> pydict \<Rightarrow> pydict" where
  "dict_update result [] = result"
| "dict_update result ((k, v) # kvs) = dict_update (dict_set result k v) kvs"

definition dict_keys :: "pydict \<Rightarrow> string list" where
  "dict_keys d = map fst d"

text \<open>\<^verbatim>\<open>str(index)\<close> for a non-negative index: its decimal digits.\<close>

definition digit_char :: "nat \<Rightarrow> char" where
  "digit_char d = ''0123456789'' ! d"

fun str_nat :: "nat \<Rightarrow> string" where
  "str_nat n = (if n < 10 then [digit_char n] else str_nat (n div 10) @ [digit_char (n mod 10)])"

declare str_nat.simps [simp del]

section \<open>Flattening\<close>

definition IGNORED_DICT_KEYS :: "string list" where
  "IGNORED_DICT_KEYS = [''fitted'', ''distribution'', ''type'']"

text \<open>\<^verbatim>\<open>'__'.join([prefix, s]) if len(prefix) else s\<close>\<close>

definition join_prefix :: "string \<Rightarrow> string \<Rightarrow> string" where
  "join_prefix prefix s = (if length prefix \<noteq> 0 then prefix @ ''__'' @ s else s)"

text \<open>
  \<^verbatim>\<open>Modeler._flatten_array\<close>. The loop over \<^verbatim>\<open>range(len(nested))\<close> is the recursion over
  the remaining elements, with the running index and the \<open>result\<close> dictionary passed on.
  An element that is a list or a numpy array is flattened under the extended prefix and
  merged with \<^verbatim>\<open>update\<close>; any other element (a dictionary too) is stored as it is.
\<close>

fun flatten_array_loop :: "nat \<Rightarrow> pyval list \<Rightarrow> string \<Rightarrow> pydict \<Rightarrow> pydict" where
  "flatten_array_loop index [] prefix result = result"
| "flatten_array_loop index (PyList ys # rest) prefix result =
     flatten_array_loop (Suc index) rest prefix
       (dict_update result (flatten_array_loop 0 ys (join_prefix prefix (str_nat index)) []))"
| "flatten_array_loop index (NdArray ys # rest) prefix result =
     flatten_array_loop (Suc index) rest prefix
       (dict_update result (flatten_array_loop 0 ys (join_prefix prefix (str_nat index)) []))"
| "flatten_array_loop index (x # rest) prefix result =
     flatten_array_loop (Suc index) rest prefix
       (dict_set result (join_prefix prefix (str_nat index)) x)"

definition flatten_array :: "pyval list \<Rightarrow> string \<Rightarrow> pydict" where
  "flatten_array nested prefix = flatten_array_loop 0 nested prefix []"

text \<open>\<^verbatim>\<open>isinstance(value, (dict, list))\<close>: a numpy array is neither.\<close>

fun isinstance_dict_list :: "pyval \<Rightarrow> bool" where
  "isinstance_dict_list (PyDict d) = True"
| "isinstance_dict_list (PyList xs) = True"
| "isinstance_dict_list v = False"

text \<open>
  \<^verbatim>\<open>Modeler._flatten_dict\<close>, as the loop over \<^verbatim>\<open>nested.items()\<close>. The branches are in
  the order of the source: the ignored-key test first, then dictionaries, then numpy
  arrays and lists, then everything else.
\<close>

fun flatten_dict_loop :: "(string \<times> pyval) list \<Rightarrow> string \<Rightarrow> pydict \<Rightarrow> pydict" where
  "flatten_dict_loop [] prefix result = result"
| "flatten_dict_loop ((key, v) # items) prefix result =
     (if key \<in> set IGNORED_DICT_KEYS \<and> \<not> isinstance_dict_list v
      then flatten_dict_loop items prefix result
      else (case v of
          PyDict d \<Rightarrow> flatten_dict_loop items prefix
            (dict_update result (flatten_dict_loop d (join_prefix prefix key) []))
        | NdArray ys \<Rightarrow> flatten_dict_loop items prefix
            (dict_update result (flatten_array ys (join_prefix prefix key)))
        | PyList ys \<Rightarrow> flatten_dict_loop items prefix
            (dict_update result (flatten_array ys (join_prefix prefix key)))
        | Scalar s \<Rightarrow> flatten_dict_loop items prefix
            (dict_set result (join_prefix prefix key) v)))"

definition flatten_dict :: "pydict \<Rightarrow> string \<Rightarrow> pydict" where
  "flatten_dict nested prefix = flatten_dict_loop nested prefix []"

section \<open>Errors\<close>

text \<open>
  The exceptions the module can surface. \<open>LookupError\<close> is what taking element 0 of an
  empty \<^verbatim>\<open>Series.mode()\<close> raises (a \<^verbatim>\<open>KeyError\<close> or an \<^verbatim>\<open>IndexError\<close>, depending on
  the pandas version; both are lookup errors). \<open>FitError\<close> is a failure of the external
  model class. The module defines no exception class of its own.
\<close>

datatype error = KeyError | ValueError | LookupError | FitError

section \<open>Tables\<close>

text \<open>
  A pandas frame: row labels, the name and the dtype of the index, and the columns in
  order, each with its dtype and one cell per row. A missing cell is \<open>NaN\<close> or \<open>None\<close>, as
  \<^verbatim>\<open>isna\<close> has it. The operations below are those of pandas on frames whose column
  labels are distinct.
\<close>

datatype dtype = Int64 | Float64 | Object | OtherDtype

record column =
  dtype :: dtype
  cells :: "pyval list"

record frame =
  index_values :: "pyval list"
  index_name :: "string option"
  index_dtype :: dtype
  columns :: "(string \<times> column) list"

definition column_names :: "frame \<Rightarrow> string list" where
  "column_names data = map fst (columns data)"

definition get_column :: "frame \<Rightarrow> string \<Rightarrow> column option" where
  "get_column data name = map_of (columns data) name"

text \<open>\<^verbatim>\<open>data[name] = series\<close>: an existing column is replaced where it stands, a new one
  goes last.\<close>

fun set_column_list :: "(string \<times> column) list \<Rightarrow> string \<Rightarrow> column \<Rightarrow> (string \<times> column) list" where
  "set_column_list [] name c = [(name, c)]"
| "set_column_list ((k, w) # kcs) name c =
     (if k = name then (k, c) # kcs else (k, w) # set_column_list kcs name c)"

definition set_column :: "frame \<Rightarrow> string \<Rightarrow> column \<Rightarrow> frame" where
  "set_column data name c = data\<lparr>columns := set_column_list (columns data) name c\<rparr>"

definition nrows :: "frame \<Rightarrow> nat" where
  "nrows data = length (index_values data)"

definition is_na :: "pyval \<Rightarrow> bool" where
  "is_na v = (v = Scalar PNone \<or> v = Scalar NaN)"

definition fillna :: "pyval \<Rightarrow> pyval list \<Rightarrow> pyval list" where
  "fillna fill_value cs = map (\<lambda>c. if is_na c then fill_value else c) cs"

text \<open>\<^verbatim>\<open>Series.unique()\<close>: the distinct values in order of first appearance.\<close>

definition unique :: "'a list \<Rightarrow> 'a list" where
  "unique xs = rev (remdups (rev xs))"

section \<open>Imputation\<close>

text \<open>\<^verbatim>\<open>Series.mean()\<close> skips missing cells; with nothing left the mean is \<open>NaN\<close>.\<close>

fun num_of :: "pyval \<Rightarrow> real option" where
  "num_of (Scalar (Num x)) = Some x"
| "num_of v = None"

definition series_mean :: "pyval list \<Rightarrow> pyval" where
  "series_mean cs =
     (let xs = List.map_filter num_of cs
      in if xs = [] then Scalar NaN else Scalar (Num (sum_list xs / real (length xs))))"

text \<open>
  \<^verbatim>\<open>Series.mode()\<close>: the most frequent of the non-missing values, sorted when they are all
  numbers, all strings or all booleans (pandas leaves values it cannot compare unsorted).
\<close>

fun str_of :: "pyval \<Rightarrow> string" where
  "str_of (Scalar (Str s)) = s"
| "str_of v = []"

fun real_of :: "pyval \<Rightarrow> real" where
  "real_of (Scalar (Num x)) = x"
| "real_of v = 0"

fun is_number :: "pyval \<Rightarrow> bool" where
  "is_number (Scalar (Num x)) = True"
| "is_number v = False"

fun is_str :: "pyval \<Rightarrow> bool" where
  "is_str (Scalar (Str s)) = True"
| "is_str v = False"

fun is_bool :: "pyval \<Rightarrow> bool" where
  "is_bool (Scalar (Bool b)) = True"
| "is_bool v = False"

definition sort_modes :: "pyval list \<Rightarrow> pyval list" where
  "sort_modes vs =
     (if list_all is_number vs then sort_key real_of vs
      else if list_all is_str vs then sort_key str_of vs
      else if list_all is_bool vs then sort_key (\<lambda>v. v = Scalar (Bool True)) vs
      else vs)"

definition series_mode :: "pyval list \<Rightarrow> pyval list" where
  "series_mode cs =
     (let present = filter (\<lambda>c. \<not> is_na c) cs;
          top = fold max (map (count_list present) present) 0
      in sort_modes (unique (filter (\<lambda>v. count_list present v = top) present)))"

text \<open>
  The fill value of one column, lines 99 to 102: the mean for the dtypes \<^verbatim>\<open>np.int\<close> and
  \<^verbatim>\<open>np.float\<close> compare equal to, element 0 of the mode otherwise, which raises when
  the mode is empty.
\<close>

definition fill_value_of :: "column \<Rightarrow> error + pyval" where
  "fill_value_of column_data =
     (if dtype column_data \<in> {Int64, Float64} then Inr (series_mean (cells column_data))
      else (case series_mode (cells column_data) of
              [] \<Rightarrow> Inl LookupError
            | v # vs \<Rightarrow> Inr v))"

text \<open>Line 104, right-hand side: the column with its missing cells filled.\<close>

definition fill_column :: "column \<Rightarrow> error + column" where
  "fill_column column_data =
     (case fill_value_of column_data of
        Inl e \<Rightarrow> Inl e
      | Inr fill_value \<Rightarrow> Inr (column_data\<lparr>cells := fillna fill_value (cells column_data)\<rparr>))"

text \<open>
  The loop of \<^verbatim>\<open>Modeler._impute\<close> over the column labels of \<open>data\<close>; each pass assigns
  the filled column back into the frame.
\<close>

fun impute_loop :: "string list \<Rightarrow> frame \<Rightarrow> error + frame" where
  "impute_loop [] data = Inr data"
| "impute_loop (column # rest) data =
     (case get_column data column of
        None \<Rightarrow> Inl KeyError
      | Some column_data \<Rightarrow>
          (case fill_column column_data of
             Inl e \<Rightarrow> Inl e
           | Inr filled \<Rightarrow> impute_loop rest (set_column data column filled)))"

definition impute_frame :: "frame \<Rightarrow> error + frame" where
  "impute_frame data = impute_loop (column_names data) data"

text \<open>
  \<^verbatim>\<open>Modeler._impute\<close> on objects. Frames live in a store, a table is passed by reference,
  and the assignments \<^verbatim>\<open>data[column] = ...\<close> write into the object the caller passed;
  the reference returned is that same object. An exception leaves the call with no
  result; the store it leaves behind is not tracked.
\<close>

type_synonym ref = nat

type_synonym store = "ref \<Rightarrow> frame"

definition impute :: "store \<Rightarrow> ref \<Rightarrow> error + (store \<times> ref)" where
  "impute h data =
     (case impute_frame (h data) of
        Inl e \<Rightarrow> Inl e
      | Inr filled \<Rightarrow> Inr (h(data := filled), data))"

section \<open>Fitted models\<close>

text \<open>
  What the module touches of a fitted model: the covariance matrix, the dictionary
  \<^verbatim>\<open>distribs\<close> from column name to descriptor object, and the \<^verbatim>\<open>std\<close> attribute of
  each descriptor. Descriptors are objects (\<open>descriptors\<close> maps a reference to its
  object), since the module assigns to their attribute through \<^verbatim>\<open>distribs.values()\<close>.
  Everything else a model or a descriptor holds is the extension part of the record.
\<close>

record distribution =
  std :: scalar

record 'd fitted_model =
  covariance :: "real list list"
  distribs :: "(string \<times> ref) list"
  descriptors :: "ref \<Rightarrow> 'd distribution_scheme"

text \<open>\<^verbatim>\<open>np.tril\<close>: the entries above the diagonal become zero.\<close>

definition np_tril :: "real list list \<Rightarrow> real list list" where
  "np_tril m =
     map (\<lambda>(i, row). map (\<lambda>(j, x). if j \<le> i then x else 0) (enumerate 0 row)) (enumerate 0 m)"

text \<open>Lines 138 to 142: row \<open>index\<close> of the triangle, cut after \<open>index + 1\<close> entries.\<close>

definition covariance_values :: "real list list \<Rightarrow> real list list" where
  "covariance_values cov = map (\<lambda>(index, row). take (index + 1) row) (enumerate 0 (np_tril cov))"

text \<open>
  Lines 145 to 147: the loop over \<^verbatim>\<open>model.distribs.values()\<close>. \<open>np_log\<close> is numpy's
  logarithm on a scalar.
\<close>

fun log_stds ::
  "(scalar \<Rightarrow> scalar) \<Rightarrow> ref list \<Rightarrow> (ref \<Rightarrow> 'd distribution_scheme) \<Rightarrow> (ref \<Rightarrow> 'd distribution_scheme)" where
  "log_stds np_log [] objs = objs"
| "log_stds np_log (r # rs) objs =
     log_stds np_log rs
       (if std (objs r) \<noteq> PNone then objs(r := (objs r)\<lparr>std := np_log (std (objs r))\<rparr>) else objs)"

definition encode_model ::
  "(scalar \<Rightarrow> scalar) \<Rightarrow> ('d, 'm) fitted_model_scheme \<Rightarrow> ('d, 'm) fitted_model_scheme" where
  "encode_model np_log model =
     model\<lparr>covariance := covariance_values (covariance model),
           descriptors := log_stds np_log (map snd (distribs model)) (descriptors model)\<rparr>"

section \<open>Collaborators\<close>

text \<open>
  The metadata object, the model class and numpy's logarithm are not part of the module;
  they are parameters. \<open>get_primary_key\<close> may return \<^verbatim>\<open>None\<close>; \<open>get_children\<close>,
  \<open>get_parents\<close> and \<open>get_tables\<close> are given in the order they iterate in. \<open>fit\<close> is
  the construction of \<^verbatim>\<open>self.model(**self.model_kwargs)\<close> followed by \<^verbatim>\<open>model.fit(data)\<close>,
  which may raise.
\<close>

record ('d, 'm) env =
  load_table :: "string \<Rightarrow> frame"
  transform :: "string \<Rightarrow> frame \<Rightarrow> frame"
  get_primary_key :: "string \<Rightarrow> string option"
  get_foreign_key :: "string \<Rightarrow> string \<Rightarrow> string"
  get_children :: "string \<Rightarrow> string list"
  get_parents :: "string \<Rightarrow> string list"
  get_tables :: "string list"
  fit :: "frame \<Rightarrow> error + ('d, 'm) fitted_model_scheme"
  to_dict :: "('d, 'm) fitted_model_scheme \<Rightarrow> pydict"
  np_log :: "scalar \<Rightarrow> scalar"

text \<open>
  \<^verbatim>\<open>Modeler._fit_model\<close>. \<^verbatim>\<open>_impute\<close> writes into the frame it is given, so the frame
  the caller holds after the call is the imputed one; it is returned beside the model.
\<close>

definition fit_model ::
  "('d, 'm) env \<Rightarrow> frame \<Rightarrow> error + (('d, 'm) fitted_model_scheme \<times> frame)" where
  "fit_model e data =
     (case impute_frame data of
        Inl err \<Rightarrow> Inl err
      | Inr data' \<Rightarrow>
          (case fit e data' of
             Inl err \<Rightarrow> Inl err
           | Inr model \<Rightarrow> Inr (model, data')))"

text \<open>\<^verbatim>\<open>Modeler._get_model_dict\<close>\<close>

definition get_model_dict :: "('d, 'm) env \<Rightarrow> frame \<Rightarrow> error + pydict" where
  "get_model_dict e data =
     (case fit_model e data of
        Inl err \<Rightarrow> Inl err
      | Inr (model, data') \<Rightarrow> Inr (flatten_dict (to_dict e (encode_model (np_log e) model)) []))"

section \<open>Extensions\<close>

text \<open>\<^verbatim>\<open>child_table.set_index(foreign_key)\<close>: the column becomes the index and leaves the
  columns.\<close>

definition set_index :: "frame \<Rightarrow> string \<Rightarrow> error + frame" where
  "set_index data key =
     (case get_column data key of
        None \<Rightarrow> Inl KeyError
      | Some c \<Rightarrow>
          Inr \<lparr>index_values = cells c, index_name = Some key,
               index_dtype = dtype c,
               columns = filter (\<lambda>(name, col). name \<noteq> key) (columns data)\<rparr>)"

text \<open>\<^verbatim>\<open>child_table.loc[[value]]\<close>: the rows whose label is \<open>value\<close>, in order.\<close>

definition select_rows :: "bool list \<Rightarrow> 'a list \<Rightarrow> 'a list" where
  "select_rows keep xs = map snd (filter fst (zip keep xs))"

definition loc_rows :: "frame \<Rightarrow> pyval \<Rightarrow> frame" where
  "loc_rows data v =
     (let keep = map (\<lambda>l. l = v) (index_values data)
      in \<lparr>index_values = select_rows keep (index_values data), index_name = index_name data,
          index_dtype = index_dtype data,
          columns = map (\<lambda>(name, col). (name, col\<lparr>cells := select_rows keep (cells col)\<rparr>))
                      (columns data)\<rparr>)"

text \<open>
  \<^verbatim>\<open>pd.Series(row)\<close>: when every value is a number or missing the series is a float
  series and \<^verbatim>\<open>None\<close> is stored as \<open>NaN\<close>; otherwise the values are kept as objects.
\<close>

definition numeric_or_na :: "pyval \<Rightarrow> bool" where
  "numeric_or_na v = (is_number v \<or> is_na v)"

definition series_of_dict :: "pydict \<Rightarrow> pydict" where
  "series_of_dict d =
     (if list_all (\<lambda>(k, v). numeric_or_na v) d
      then map (\<lambda>(k, v). (k, if is_na v then Scalar NaN else v)) d
      else d)"

text \<open>The body of the loop of \<^verbatim>\<open>Modeler._get_extension\<close>, lines 175 to 181.\<close>

definition extension_row :: "('d, 'm) env \<Rightarrow> string \<Rightarrow> frame \<Rightarrow> pyval \<Rightarrow> error + pydict" where
  "extension_row e child_name child_table foreign_key_value =
     (let child_rows = loc_rows child_table foreign_key_value;
          num_child_rows = nrows child_rows
      in case get_model_dict e child_rows of
           Inl err \<Rightarrow> Inl err
         | Inr row \<Rightarrow>
             Inr (map (\<lambda>(k, v). (''__'' @ child_name @ ''__'' @ k, v))
                    (series_of_dict
                       (dict_set row ''child_rows'' (Scalar (Num (real num_child_rows)))))))"

fun extension_rows :: "('d, 'm) env \<Rightarrow> string \<Rightarrow> frame \<Rightarrow> pyval list \<Rightarrow> error + pydict list" where
  "extension_rows e child_name child_table [] = Inr []"
| "extension_rows e child_name child_table (v # vs) =
     (case extension_row e child_name child_table v of
        Inl err \<Rightarrow> Inl err
      | Inr row \<Rightarrow>
          (case extension_rows e child_name child_table vs of
             Inl err \<Rightarrow> Inl err
           | Inr rows \<Rightarrow> Inr (row # rows)))"

text \<open>
  \<^verbatim>\<open>pd.DataFrame(extension_rows, index=foreign_key_values)\<close>: one row per series, one
  column per key that occurs in some series (taken here in order of first appearance),
  \<open>NaN\<close> where a series lacks the key. A column of numbers and \<open>NaN\<close> is a float column,
  any other an object column. The index is the array given, with its dtype.
\<close>

definition infer_dtype :: "pyval list \<Rightarrow> dtype" where
  "infer_dtype cs = (if list_all (\<lambda>c. is_number c \<or> c = Scalar NaN) cs then Float64 else Object)"

definition row_cell :: "pydict \<Rightarrow> string \<Rightarrow> pyval" where
  "row_cell row name = (case map_of row name of None \<Rightarrow> Scalar NaN | Some v \<Rightarrow> v)"

definition data_frame :: "pydict list \<Rightarrow> pyval list \<Rightarrow> dtype \<Rightarrow> frame" where
  "data_frame rows idx idx_dtype =
     \<lparr>index_values = idx, index_name = None, index_dtype = idx_dtype,
      columns = map (\<lambda>name. (name, (let cs = map (\<lambda>row. row_cell row name) rows
                                     in \<lparr>dtype = infer_dtype cs, cells = cs\<rparr>)))
                  (unique (concat (map (map fst) rows)))\<rparr>"

text \<open>\<^verbatim>\<open>Modeler._get_extension\<close>\<close>

definition get_extension :: "('d, 'm) env \<Rightarrow> string \<Rightarrow> frame \<Rightarrow> string \<Rightarrow> error + frame" where
  "get_extension e child_name child_table foreign_key =
     (case get_column child_table foreign_key of
        None \<Rightarrow> Inl KeyError
      | Some fk_column \<Rightarrow>
          (let foreign_key_values = unique (cells fk_column)
           in case set_index child_table foreign_key of
                Inl err \<Rightarrow> Inl err
              | Inr indexed \<Rightarrow>
                  (case extension_rows e child_name indexed foreign_key_values of
                     Inl err \<Rightarrow> Inl err
                   | Inr rows \<Rightarrow> Inr (data_frame rows foreign_key_values (dtype fk_column)))))"

section \<open>Frame operations used by the traversal\<close>

text \<open>
  \<^verbatim>\<open>extended.merge(extension, how='left', right_index=True, left_index=True)\<close>. Every
  left row is kept, in order, once per right row with the same label, or once with \<open>NaN\<close>
  in the right columns when there is none. A column name on both sides gets the suffixes
  \<^verbatim>\<open>_x\<close> and \<^verbatim>\<open>_y\<close>. A right column that receives a \<open>NaN\<close> can no longer be an
  integer column.
\<close>

definition left_cells :: "pyval list \<Rightarrow> pyval list \<Rightarrow> pyval list \<Rightarrow> pyval list" where
  "left_cells lidx ridx cs =
     concat (map (\<lambda>(l, c). replicate (max 1 (count_list ridx l)) c) (zip lidx cs))"

definition right_cells :: "pyval list \<Rightarrow> pyval list \<Rightarrow> pyval list \<Rightarrow> pyval list" where
  "right_cells lidx ridx cs =
     concat (map (\<lambda>l. if l \<in> set ridx then select_rows (map (\<lambda>r. r = l) ridx) cs
                       else [Scalar NaN]) lidx)"

fun upcast :: "dtype \<Rightarrow> dtype" where
  "upcast Int64 = Float64"
| "upcast OtherDtype = Object"
| "upcast d = d"

definition merge_left :: "frame \<Rightarrow> frame \<Rightarrow> frame" where
  "merge_left left right =
     (let lidx = index_values left; ridx = index_values right;
          overlap = filter (\<lambda>name. name \<in> set (column_names right)) (column_names left);
          unmatched = (\<exists>l \<in> set lidx. l \<notin> set ridx)
      in \<lparr>index_values = left_cells lidx ridx lidx, index_name = index_name left,
          index_dtype = index_dtype left,
          columns =
            map (\<lambda>(name, col).
                   (if name \<in> set overlap then name @ ''_x'' else name,
                    col\<lparr>cells := left_cells lidx ridx (cells col)\<rparr>)) (columns left) @
            map (\<lambda>(name, col).
                   (if name \<in> set overlap then name @ ''_y'' else name,
                    \<lparr>dtype = (if unmatched then upcast (dtype col) else dtype col),
                     cells = right_cells lidx ridx (cells col)\<rparr>)) (columns right)\<rparr>)"

text \<open>\<^verbatim>\<open>data[name].fillna(value, inplace=True)\<close>\<close>

definition fillna_column :: "frame \<Rightarrow> string \<Rightarrow> pyval \<Rightarrow> error + frame" where
  "fillna_column data name v =
     (case get_column data name of
        None \<Rightarrow> Inl KeyError
      | Some c \<Rightarrow> Inr (set_column data name (c\<lparr>cells := fillna v (cells c)\<rparr>)))"

text \<open>\<^verbatim>\<open>extended.index = table[primary_key]\<close>\<close>

definition assign_index :: "frame \<Rightarrow> frame \<Rightarrow> string \<Rightarrow> error + frame" where
  "assign_index extended table primary_key =
     (case get_column table primary_key of
        None \<Rightarrow> Inl KeyError
      | Some c \<Rightarrow>
          if length (cells c) \<noteq> nrows extended then Inl ValueError
          else Inr (extended\<lparr>index_values := cells c, index_name := Some primary_key,
                         index_dtype := dtype c\<rparr>))"

text \<open>
  \<^verbatim>\<open>extended.reset_index(inplace=True)\<close>: the index becomes the first column, under the
  name of the index and with its dtype, and the rows are numbered anew. Inserting a name that is already a
  column raises.
\<close>

definition reset_index :: "frame \<Rightarrow> error + frame" where
  "reset_index data =
     (let name = (case index_name data of
                    Some n \<Rightarrow> n
                  | None \<Rightarrow> if ''index'' \<in> set (column_names data) then ''level_0'' else ''index'')
      in if name \<in> set (column_names data) then Inl ValueError
         else Inr \<lparr>index_values = map (\<lambda>i. Scalar (Num (real i))) [0..<nrows data],
                   index_name = None, index_dtype = Int64,
                   columns = (name, \<lparr>dtype = index_dtype data,
                                      cells = index_values data\<rparr>) # columns data\<rparr>)"

text \<open>
  \<^verbatim>\<open>extended[key] = table[key]\<close>: the series is aligned on the row labels of \<open>extended\<close>.
  With the same labels on both sides the cells are taken as they are; otherwise each
  label is looked up in the series, which must then have distinct labels.
\<close>

definition reindex :: "column \<Rightarrow> pyval list \<Rightarrow> pyval list \<Rightarrow> column" where
  "reindex c src dst =
     \<lparr>dtype = (if \<exists>l \<in> set dst. l \<notin> set src then upcast (dtype c) else dtype c),
      cells = map (\<lambda>l. case map_of (zip src (cells c)) l of
                          None \<Rightarrow> Scalar NaN
                        | Some v \<Rightarrow> v) dst\<rparr>"

definition assign_column :: "frame \<Rightarrow> string \<Rightarrow> frame \<Rightarrow> error + frame" where
  "assign_column extended key table =
     (case get_column table key of
        None \<Rightarrow> Inl KeyError
      | Some c \<Rightarrow>
          if index_values table = index_values extended then Inr (set_column extended key c)
          else if \<not> distinct (index_values table) then Inl ValueError
          else Inr (set_column extended key
                      (reindex c (index_values table) (index_values extended))))"

section \<open>The traversal\<close>

text \<open>Truth value of a key that may be \<^verbatim>\<open>None\<close> or a string.\<close>

fun truthy :: "string option \<Rightarrow> bool" where
  "truthy None = False"
| "truthy (Some s) = (s \<noteq> [])"

fun key_name :: "string option \<Rightarrow> string" where
  "key_name None = []"
| "key_name (Some s) = s"

text \<open>
  Lines 204 to 207. \<open>tables\<close> is \<^verbatim>\<open>None\<close> or a dictionary; \<^verbatim>\<open>if tables\<close> holds for
  a dictionary with at least one entry.
\<close>

type_synonym tables = "(string \<times> frame) list option"

fun tables_truthy :: "tables \<Rightarrow> bool" where
  "tables_truthy None = False"
| "tables_truthy (Some d) = (d \<noteq> [])"

definition resolve_table :: "('d, 'm) env \<Rightarrow> tables \<Rightarrow> string \<Rightarrow> error + frame" where
  "resolve_table e tables table_name =
     (if tables_truthy tables
      then (case tables of
              None \<Rightarrow> Inl KeyError
            | Some d \<Rightarrow> (case map_of d table_name of None \<Rightarrow> Inl KeyError | Some t \<Rightarrow> Inr t))
      else Inr (load_table e table_name))"

type_synonym ('d, 'm) registry = "string \<Rightarrow> ('d, 'm) fitted_model_scheme option"

text \<open>
  \<^verbatim>\<open>Modeler.cpa\<close>, with \<^verbatim>\<open>self.models\<close> passed in and returned. The recursion follows
  the schema, which the module does not check for cycles, so the depth of the recursion
  is bounded by a counter: \<open>None\<close> is the call that has not returned within it.
  \<open>cpa_children\<close> is the loop of lines 214 to 220 over the children still to visit.
\<close>

fun cpa ::
  "('d, 'm) env \<Rightarrow> nat \<Rightarrow> ('d, 'm) registry \<Rightarrow> string \<Rightarrow> tables \<Rightarrow> string option
     \<Rightarrow> (error + (('d, 'm) registry \<times> frame)) option"
and cpa_children ::
  "('d, 'm) env \<Rightarrow> nat \<Rightarrow> ('d, 'm) registry \<Rightarrow> string \<Rightarrow> tables \<Rightarrow> string list \<Rightarrow> frame
     \<Rightarrow> (error + (('d, 'm) registry \<times> frame)) option" where
  "cpa e 0 models table_name tables foreign_key = None"
| "cpa e (Suc n) models table_name tables foreign_key =
     (case resolve_table e tables table_name of
        Inl err \<Rightarrow> Some (Inl err)
      | Inr table \<Rightarrow>
          (let extended = transform e table_name table;
               primary_key = get_primary_key e table_name
           in case (if truthy primary_key
                    then (case assign_index extended table (key_name primary_key) of
                            Inl err \<Rightarrow> Some (Inl err)
                          | Inr indexed \<Rightarrow>
                              cpa_children e n models table_name tables
                                (get_children e table_name) indexed)
                    else Some (Inr (models, extended))) of
                None \<Rightarrow> None
              | Some (Inl err) \<Rightarrow> Some (Inl err)
              | Some (Inr (models', merged)) \<Rightarrow>
                  (case fit_model e merged of
                     Inl err \<Rightarrow> Some (Inl err)
                   | Inr (model, imputed) \<Rightarrow>
                       (case (if truthy primary_key then reset_index imputed else Inr imputed) of
                          Inl err \<Rightarrow> Some (Inl err)
                        | Inr restored \<Rightarrow>
                            (case (if truthy foreign_key
                                   then assign_column restored (key_name foreign_key) table
                                   else Inr restored) of
                               Inl err \<Rightarrow> Some (Inl err)
                             | Inr result \<Rightarrow>
                                 Some (Inr (models'(table_name \<mapsto> model), result)))))))"
| "cpa_children e n models table_name tables [] extended = Some (Inr (models, extended))"
| "cpa_children e n models table_name tables (child_name # rest) extended =
     (let child_key = get_foreign_key e table_name child_name
      in case cpa e n models child_name tables (Some child_key) of
           None \<Rightarrow> None
         | Some (Inl err) \<Rightarrow> Some (Inl err)
         | Some (Inr (models', child_table)) \<Rightarrow>
             (case get_extension e child_name child_table child_key of
                Inl err \<Rightarrow> Some (Inl err)
              | Inr extension \<Rightarrow>
                  (case fillna_column (merge_left extended extension)
                          (''__'' @ child_name @ ''__child_rows'') (Scalar (Num 0)) of
                     Inl err \<Rightarrow> Some (Inl err)
                   | Inr filled \<Rightarrow> cpa_children e n models' table_name tables rest filled)))"

text \<open>
  Lines 209 to 230 of \<^verbatim>\<open>Modeler.cpa\<close> on their own, for a given value of the variable
  \<open>table\<close>: what the call does once lines 204 to 207 have bound it.
\<close>

definition cpa_from_table ::
  "('d, 'm) env \<Rightarrow> nat \<Rightarrow> ('d, 'm) registry \<Rightarrow> string \<Rightarrow> tables \<Rightarrow> string option \<Rightarrow> frame
     \<Rightarrow> (error + (('d, 'm) registry \<times> frame)) option" where
  "cpa_from_table e n models table_name tables foreign_key table =
     (let extended = transform e table_name table;
          primary_key = get_primary_key e table_name
      in case (if truthy primary_key
               then (case assign_index extended table (key_name primary_key) of
                       Inl err \<Rightarrow> Some (Inl err)
                     | Inr indexed \<Rightarrow>
                         cpa_children e n models table_name tables
                           (get_children e table_name) indexed)
               else Some (Inr (models, extended))) of
           None \<Rightarrow> None
         | Some (Inl err) \<Rightarrow> Some (Inl err)
         | Some (Inr (models', merged)) \<Rightarrow>
             (case fit_model e merged of
                Inl err \<Rightarrow> Some (Inl err)
              | Inr (model, imputed) \<Rightarrow>
                  (case (if truthy primary_key then reset_index imputed else Inr imputed) of
                     Inl err \<Rightarrow> Some (Inl err)
                   | Inr restored \<Rightarrow>
                       (case (if truthy foreign_key
                              then assign_column restored (key_name foreign_key) table
                              else Inr restored) of
                          Inl err \<Rightarrow> Some (Inl err)
                        | Inr result \<Rightarrow>
                            Some (Inr (models'(table_name \<mapsto> model), result))))))"

text \<open>\<^verbatim>\<open>Modeler.model_database\<close>: the loop over \<^verbatim>\<open>get_tables()\<close>.\<close>

fun model_database_loop ::
  "('d, 'm) env \<Rightarrow> nat \<Rightarrow> ('d, 'm) registry \<Rightarrow> tables \<Rightarrow> string list
     \<Rightarrow> (error + ('d, 'm) registry) option" where
  "model_database_loop e n models tables [] = Some (Inr models)"
| "model_database_loop e n models tables (table_name # rest) =
     (if get_parents e table_name = []
      then (case cpa e n models table_name tables None of
              None \<Rightarrow> None
            | Some (Inl err) \<Rightarrow> Some (Inl err)
            | Some (Inr (models', extended)) \<Rightarrow> model_database_loop e n models' tables rest)
      else model_database_loop e n models tables rest)"

definition model_database ::
  "('d, 'm) env \<Rightarrow> nat \<Rightarrow> ('d, 'm) registry \<Rightarrow> tables \<Rightarrow> (error + ('d, 'm) registry) option" where
  "model_database e n models tables = model_database_loop e n models tables (get_tables e)"

section \<open>Reading the covariance back\<close>

text \<open>
  A matrix of \<open>n\<close> rows and \<open>n\<close> columns that equals its transpose, and the matrix
  rebuilt from the rows the encoding keeps: the entry at or below the diagonal is read
  from its own row, the entry above it from the mirrored place.
\<close>

definition symmetric_matrix :: "nat \<Rightarrow> real list list \<Rightarrow> bool" where
  "symmetric_matrix n m \<longleftrightarrow>
     length m = n \<and> (\<forall>row \<in> set m. length row = n)
     \<and> (\<forall>i < n. \<forall>j < n. m ! i ! j = m ! j ! i)"

definition rebuild_symmetric :: "real list list \<Rightarrow> real list list" where
  "rebuild_symmetric vals =
     map (\<lambda>i. map (\<lambda>j. if j \<le> i then vals ! i ! j else vals ! j ! i) [0..<length vals])
       [0..<length vals]"

section \<open>Example models\<close>

text \<open>The logarithm on the positive reals, as \<^verbatim>\<open>np.log\<close> on a positive float.\<close>

fun log_positive :: "scalar \<Rightarrow> scalar" where
  "log_positive (Num x) = (if 0 < x then Num (ln x) else NaN)"
| "log_positive s = NaN"

text \<open>A fitted model of two columns; the second descriptor has no scale.\<close>

fun two_descriptors :: "ref \<Rightarrow> distribution" where
  "two_descriptors r = (if r = 0 then \<lparr>std = Num 2\<rparr> else \<lparr>std = PNone\<rparr>)"

definition two_column_model :: "unit fitted_model" where
  "two_column_model =
     \<lparr>covariance = [[4, 1], [1, 9]], distribs = [(''a'', 0), (''b'', 1)],
      descriptors = two_descriptors\<rparr>"

section \<open>Comparing a column with its filled version\<close>

text \<open>Same dtype, same number of cells, and every cell that was present is unchanged.\<close>

definition keeps_values :: "column \<Rightarrow> column \<Rightarrow> bool" where
  "keeps_values c c' \<longleftrightarrow>
     dtype c' = dtype c \<and> list_all2 (\<lambda>x y. \<not> is_na x \<longrightarrow> y = x) (cells c) (cells c')"

section \<open>The structure of a nested value\<close>

text \<open>
  Two values have the same structure when they are built alike, key by key and position
  by position, whatever their scalars are.
\<close>

fun same_structure :: "pyval \<Rightarrow> pyval \<Rightarrow> bool" where
  "same_structure (Scalar s) (Scalar s') = True"
| "same_structure (PyDict d) (PyDict d') =
     list_all2 (\<lambda>(k, v) (k', v'). k = k' \<and> same_structure v v') d d'"
| "same_structure (PyList xs) (PyList ys) = list_all2 same_structure xs ys"
| "same_structure (NdArray xs) (NdArray ys) = list_all2 same_structure xs ys"
| "same_structure v v' = False"

section \<open>Example parameters\<close>

text \<open>Two exports of the same structure with different numbers.\<close>

definition params_a :: pydict where
  "params_a =
     [(''covariance'', PyList [PyList [Scalar (Num 4)], PyList [Scalar (Num 1), Scalar (Num 9)]]),
      (''type'', Scalar (Str ''GaussianMultivariate'')),
      (''mu'', NdArray [Scalar (Num 3), Scalar (Num 5)])]"

definition params_b :: pydict where
  "params_b =
     [(''covariance'', PyList [PyList [Scalar (Num 2)], PyList [Scalar (Num 0), Scalar (Num 7)]]),
      (''type'', Scalar (Str ''GaussianMultivariate'')),
      (''mu'', NdArray [Scalar (Num 1), Scalar (Num 8)])]"

section \<open>Example tables\<close>

text \<open>A table with one gap in a float column, held by a caller as object 0.\<close>

definition scores_frame :: frame where
  "scores_frame =
     \<lparr>index_values = [Scalar (Num 0), Scalar (Num 1), Scalar (Num 2)], index_name = None,
      index_dtype = Int64,
      columns = [(''score'', \<lparr>dtype = Float64,
                              cells = [Scalar (Num 1), Scalar NaN, Scalar (Num 3)]\<rparr>)]\<rparr>"

definition scores_filled :: frame where
  "scores_filled =
     \<lparr>index_values = [Scalar (Num 0), Scalar (Num 1), Scalar (Num 2)], index_name = None,
      index_dtype = Int64,
      columns = [(''score'', \<lparr>dtype = Float64,
                              cells = [Scalar (Num 1), Scalar (Num 2), Scalar (Num 3)]\<rparr>)]\<rparr>"

definition scores_store :: store where
  "scores_store r = scores_frame"

text \<open>A table whose float column is missing in every row, and one whose object column is.\<close>

definition gaps_frame :: frame where
  "gaps_frame =
     \<lparr>index_values = [Scalar (Num 0), Scalar (Num 1)], index_name = None,
      index_dtype = Int64,
      columns = [(''score'', \<lparr>dtype = Float64, cells = [Scalar NaN, Scalar NaN]\<rparr>)]\<rparr>"

definition gaps_store :: store where
  "gaps_store r = gaps_frame"

definition nameless_frame :: frame where
  "nameless_frame =
     \<lparr>index_values = [Scalar (Num 0), Scalar (Num 1)], index_name = None,
      index_dtype = Int64,
      columns = [(''name'', \<lparr>dtype = Object, cells = [Scalar PNone, Scalar PNone]\<rparr>)]\<rparr>"

definition nameless_store :: store where
  "nameless_store r = nameless_frame"

section \<open>Example schema\<close>

text \<open>
  Three users, and three orders of which two belong to user 1, none to user 2 and one to
  user 3. The metadata drops the key columns in \<open>transform\<close>. The model class stands
  in for a Gaussian copula: it refuses an empty table, and exports a covariance matrix,
  one descriptor per column and the column means, with the bookkeeping keys
  \<^verbatim>\<open>type\<close>, \<^verbatim>\<open>fitted\<close> and \<^verbatim>\<open>distribution\<close> beside them.
\<close>

record 'd gaussian_model = "'d fitted_model" +
  means :: "real list"

definition users_table :: frame where
  "users_table =
     \<lparr>index_values = [Scalar (Num 0), Scalar (Num 1), Scalar (Num 2)], index_name = None,
      index_dtype = Int64,
      columns = [(''id'', \<lparr>dtype = Int64, cells = [Scalar (Num 1), Scalar (Num 2), Scalar (Num 3)]\<rparr>),
                 (''age'', \<lparr>dtype = Float64,
                            cells = [Scalar (Num 30), Scalar (Num 40), Scalar (Num 50)]\<rparr>)]\<rparr>"

definition orders_table :: frame where
  "orders_table =
     \<lparr>index_values = [Scalar (Num 0), Scalar (Num 1), Scalar (Num 2)], index_name = None,
      index_dtype = Int64,
      columns = [(''user_id'', \<lparr>dtype = Int64,
                                cells = [Scalar (Num 1), Scalar (Num 1), Scalar (Num 3)]\<rparr>),
                 (''amount'', \<lparr>dtype = Float64,
                               cells = [Scalar (Num 10), Scalar (Num 20), Scalar (Num 40)]\<rparr>)]\<rparr>"

definition shop_transform :: "string \<Rightarrow> frame \<Rightarrow> frame" where
  "shop_transform name table =
     table\<lparr>columns := filter (\<lambda>(n, c). n \<noteq> ''id'' \<and> n \<noteq> ''user_id'') (columns table)\<rparr>"

definition shop_fit :: "frame \<Rightarrow> error + (unit, unit) gaussian_model_scheme" where
  "shop_fit data =
     (if nrows data = 0 then Inl FitError
      else Inr \<lparr>covariance =
                  map (\<lambda>(i, c). map (\<lambda>(j, c'). if i = j then 1 else 0) (enumerate 0 (columns data)))
                    (enumerate 0 (columns data)),
                distribs = map (\<lambda>(i, n). (n, i)) (enumerate 0 (column_names data)),
                descriptors = (\<lambda>r. \<lparr>std = Num 1\<rparr>),
                means = map (\<lambda>(n, c). real_of (series_mean (cells c))) (columns data)\<rparr>)"

definition shop_to_dict :: "(unit, unit) gaussian_model_scheme \<Rightarrow> pydict" where
  "shop_to_dict model =
     [(''covariance'', PyList (map (\<lambda>row. PyList (map (\<lambda>x. Scalar (Num x)) row)) (covariance model))),
      (''distribs'',
         PyDict (map (\<lambda>(name, r).
                        (name, PyDict [(''type'', Scalar (Str ''GaussianUnivariate'')),
                                       (''fitted'', Scalar (Bool True)),
                                       (''std'', Scalar (std (descriptors model r)))]))
                   (distribs model))),
      (''mu'', PyList (map (\<lambda>x. Scalar (Num x)) (means model))),
      (''type'', Scalar (Str ''GaussianMultivariate'')),
      (''fitted'', Scalar (Bool True)),
      (''distribution'', Scalar (Str ''GaussianUnivariate''))]"

definition shop :: "(unit, unit gaussian_model_ext) env" where
  "shop =
     \<lparr>load_table = (\<lambda>name. if name = ''users'' then users_table else orders_table),
      transform = shop_transform,
      get_primary_key = (\<lambda>name. if name = ''users'' then Some ''id'' else None),
      get_foreign_key = (\<lambda>parent child. ''user_id''),
      get_children = (\<lambda>name. if name = ''users'' then [''orders''] else []),
      get_parents = (\<lambda>name. if name = ''orders'' then [''users''] else []),
      get_tables = [''users'', ''orders''],
      fit = shop_fit,
      to_dict = shop_to_dict,
      np_log = log_positive\<rparr>"

definition no_models :: "(unit, unit gaussian_model_ext) registry" where
  "no_models name = None"

text \<open>What \<^verbatim>\<open>cpa\<close> returns for the orders, called as a child of the users.\<close>

definition orders_result :: frame where
  "orders_result =
     \<lparr>index_values = [Scalar (Num 0), Scalar (Num 1), Scalar (Num 2)], index_name = None,
      index_dtype = Int64,
      columns = [(''amount'', \<lparr>dtype = Float64,
                               cells = [Scalar (Num 10), Scalar (Num 20), Scalar (Num 40)]\<rparr>),
                 (''user_id'', \<lparr>dtype = Int64,
                                cells = [Scalar (Num 1), Scalar (Num 1), Scalar (Num 3)]\<rparr>)]\<rparr>"

text \<open>The extension computed from the orders.\<close>

definition orders_extension :: frame where
  "orders_extension =
     \<lparr>index_values = [Scalar (Num 1), Scalar (Num 3)], index_name = None,
      index_dtype = Int64,
      columns =
        [(''__orders__covariance__0__0'',
            \<lparr>dtype = Float64, cells = [Scalar (Num 1), Scalar (Num 1)]\<rparr>),
         (''__orders__distribs__amount__std'',
            \<lparr>dtype = Float64, cells = [Scalar (Num 0), Scalar (Num 0)]\<rparr>),
         (''__orders__mu__0'',
            \<lparr>dtype = Float64, cells = [Scalar (Num 15), Scalar (Num 40)]\<rparr>),
         (''__orders__child_rows'',
            \<lparr>dtype = Float64, cells = [Scalar (Num 2), Scalar (Num 1)]\<rparr>)]\<rparr>"


section \<open>Flattening: the ignored keys\<close>

text \<open>
  Claim C2: an entry under one of the keys \<^verbatim>\<open>fitted\<close>, \<^verbatim>\<open>distribution\<close>, \<^verbatim>\<open>type\<close> is
  skipped only when its value is a scalar; a nested value (a dictionary, a list, a numpy
  array) is flattened like under any other key.

  The test of line 81 names \<^verbatim>\<open>dict\<close> and \<^verbatim>\<open>list\<close> only, while line 87 of the same
  function and line 51 of \<^verbatim>\<open>_flatten_array\<close> count a numpy array as nested. So a numpy
  array under an ignored key is dropped, where the same array as a list, or under any
  other key, is flattened.
\<close>

theorem flatten_dict_ignored_key_ndarray:
  "flatten_dict [(''type'', NdArray [Scalar (Num 1)])] [] = []
   \<and> flatten_dict [(''type'', PyList [Scalar (Num 1)])] [] = [(''type__0'', Scalar (Num 1))]
   \<and> flatten_dict [(''mu'', NdArray [Scalar (Num 1)])] [] = [(''mu__0'', Scalar (Num 1))]"
  by (simp add: flatten_dict_def flatten_array_def join_prefix_def IGNORED_DICT_KEYS_def
      str_nat.simps digit_char_def)

section \<open>The traversal: where the table comes from\<close>

lemma cpa_children_tables_cong:
  assumes "\<And>models name fk. cpa e n models name T1 fk = cpa e n models name T2 fk"
  shows "cpa_children e n models name T1 cs ext = cpa_children e n models name T2 cs ext"
  using assms
  by (induction cs arbitrary: models ext)
     (simp_all add: Let_def cong: option.case_cong sum.case_cong prod.case_cong)

lemma cpa_tables_cong:
  assumes "\<And>name. resolve_table e T1 name = resolve_table e T2 name"
  shows "cpa e n models name T1 fk = cpa e n models name T2 fk"
proof (induction n arbitrary: models name fk)
  case 0
  show ?case by simp
next
  case (Suc n)
  have ch: "\<And>models cs ext.
      cpa_children e n models name T1 cs ext = cpa_children e n models name T2 cs ext"
    by (rule cpa_children_tables_cong) (rule Suc.IH)
  show ?case
    by (simp add: assms ch Let_def cong: option.case_cong sum.case_cong prod.case_cong if_cong)
qed

lemma model_database_loop_tables_cong:
  assumes "\<And>models name fk. cpa e n models name T1 fk = cpa e n models name T2 fk"
  shows "model_database_loop e n models T1 ts = model_database_loop e n models T2 ts"
  using assms
  by (induction ts arbitrary: models)
     (simp_all cong: option.case_cong sum.case_cong prod.case_cong)

lemma cpa_Suc_from_table:
  "cpa e (Suc n) models table_name tables foreign_key =
     (case resolve_table e tables table_name of
        Inl err \<Rightarrow> Some (Inl err)
      | Inr table \<Rightarrow> cpa_from_table e n models table_name tables foreign_key table)"
  by (simp add: cpa_from_table_def cong: sum.case_cong)

lemma fit_model_load_table:
  "fit_model (e\<lparr>load_table := f\<rparr>) data = fit_model e data"
  by (simp add: fit_model_def cong: sum.case_cong)

lemma get_model_dict_load_table:
  "get_model_dict (e\<lparr>load_table := f\<rparr>) data = get_model_dict e data"
  by (simp add: get_model_dict_def fit_model_load_table cong: sum.case_cong prod.case_cong)

lemma extension_rows_load_table:
  "extension_rows (e\<lparr>load_table := f\<rparr>) child_name child_table vs
     = extension_rows e child_name child_table vs"
  by (induction vs)
     (simp_all add: extension_row_def get_model_dict_load_table Let_def cong: sum.case_cong)

lemma get_extension_load_table:
  "get_extension (e\<lparr>load_table := f\<rparr>) child_name child_table foreign_key
     = get_extension e child_name child_table foreign_key"
  by (simp add: get_extension_def extension_rows_load_table Let_def
        cong: sum.case_cong option.case_cong)

lemma resolve_table_load_table:
  "resolve_table (e\<lparr>load_table := f\<rparr>) (Some (entry # d)) name
     = resolve_table e (Some (entry # d)) name"
  by (simp add: resolve_table_def)

lemma cpa_children_load_table:
  assumes "\<And>models name fk. cpa (e\<lparr>load_table := f\<rparr>) n models name T fk = cpa e n models name T fk"
  shows "cpa_children (e\<lparr>load_table := f\<rparr>) n models name T cs ext
           = cpa_children e n models name T cs ext"
  using assms
  by (induction cs arbitrary: models ext)
     (simp_all add: Let_def get_extension_load_table
        cong: option.case_cong sum.case_cong prod.case_cong)

lemma cpa_load_table:
  "cpa (e\<lparr>load_table := f\<rparr>) n models name (Some (entry # d)) fk
     = cpa e n models name (Some (entry # d)) fk"
proof (induction n arbitrary: models name fk)
  case 0
  show ?case by simp
next
  case (Suc n)
  have ch: "\<And>models cs ext.
      cpa_children (e\<lparr>load_table := f\<rparr>) n models name (Some (entry # d)) cs ext
        = cpa_children e n models name (Some (entry # d)) cs ext"
    by (rule cpa_children_load_table) (rule Suc.IH)
  show ?case
    by (simp add: resolve_table_load_table fit_model_load_table ch Let_def
          cong: option.case_cong sum.case_cong prod.case_cong if_cong)
qed

text \<open>
  Claim C10: an empty dictionary of pre-loaded tables is treated as \<^verbatim>\<open>None\<close>. With
  either, the table \<^verbatim>\<open>cpa\<close> works on is the one \<^verbatim>\<open>load_table\<close> returns for its
  name, and \<^verbatim>\<open>cpa\<close> and \<^verbatim>\<open>model_database\<close> return the same for both. A dictionary
  with at least one entry is the only case in which the table is looked up in it: then
  \<^verbatim>\<open>cpa\<close> works on the entry under the name, raises \<^verbatim>\<open>KeyError\<close> when there is none,
  and what \<^verbatim>\<open>load_table\<close> would return has no part in the result.
\<close>

theorem cpa_empty_tables_like_None:
  "resolve_table e (Some []) table_name = Inr (load_table e table_name)
   \<and> resolve_table e None table_name = Inr (load_table e table_name)
   \<and> resolve_table e (Some (entry # d)) table_name =
       (case map_of (entry # d) table_name of None \<Rightarrow> Inl KeyError | Some t \<Rightarrow> Inr t)
   \<and> cpa e (Suc n) models table_name None foreign_key =
       cpa_from_table e n models table_name None foreign_key (load_table e table_name)
   \<and> cpa e (Suc n) models table_name (Some []) foreign_key =
       cpa_from_table e n models table_name (Some []) foreign_key (load_table e table_name)
   \<and> cpa e (Suc n) models table_name (Some (entry # d)) foreign_key =
       (case map_of (entry # d) table_name of
          None \<Rightarrow> Some (Inl KeyError)
        | Some t \<Rightarrow> cpa_from_table e n models table_name (Some (entry # d)) foreign_key t)
   \<and> cpa (e\<lparr>load_table := other\<rparr>) n models table_name (Some (entry # d)) foreign_key =
       cpa e n models table_name (Some (entry # d)) foreign_key
   \<and> cpa e n models table_name (Some []) foreign_key = cpa e n models table_name None foreign_key
   \<and> model_database e n models (Some []) = model_database e n models None"
proof -
  have r: "\<And>name. resolve_table e (Some []) name = resolve_table e None name"
    by (simp add: resolve_table_def)
  have c: "\<And>models name fk. cpa e n models name (Some []) fk = cpa e n models name None fk"
    by (rule cpa_tables_cong) (rule r)
  have m: "model_database e n models (Some []) = model_database e n models None"
    using model_database_loop_tables_cong [of e n "Some []" None, OF c]
    by (simp add: model_database_def)
  have k: "cpa e (Suc n) models table_name (Some (entry # d)) foreign_key =
       (case map_of (entry # d) table_name of
          None \<Rightarrow> Some (Inl KeyError)
        | Some t \<Rightarrow> cpa_from_table e n models table_name (Some (entry # d)) foreign_key t)"
    unfolding cpa_Suc_from_table by (simp add: resolve_table_def split: option.splits)
  have l1: "cpa e (Suc n) models table_name None foreign_key =
       cpa_from_table e n models table_name None foreign_key (load_table e table_name)"
    unfolding cpa_Suc_from_table by (simp add: resolve_table_def)
  have l2: "cpa e (Suc n) models table_name (Some []) foreign_key =
       cpa_from_table e n models table_name (Some []) foreign_key (load_table e table_name)"
    unfolding cpa_Suc_from_table by (simp add: resolve_table_def)
  have r3: "resolve_table e (Some (entry # d)) table_name =
       (case map_of (entry # d) table_name of None \<Rightarrow> Inl KeyError | Some t \<Rightarrow> Inr t)"
    by (simp add: resolve_table_def)
  have r1: "resolve_table e (Some []) table_name = Inr (load_table e table_name)"
    "resolve_table e None table_name = Inr (load_table e table_name)"
    by (simp_all add: resolve_table_def)
  show ?thesis
    by (intro conjI r1 r3 l1 l2 k cpa_load_table c m)
qed

section \<open>Imputation: what it changes and when it fails\<close>

lemma map_of_set_column_list:
  "map_of (set_column_list cs name c) = (map_of cs)(name \<mapsto> c)"
  by (induction cs) (auto simp: fun_eq_iff)

lemma names_set_column_list:
  "name \<in> fst ` set cs \<Longrightarrow> map fst (set_column_list cs name c) = map fst cs"
  by (induction cs) force+

lemma get_column_set_column:
  "get_column (set_column data name c) k = (if k = name then Some c else get_column data k)"
  by (simp add: get_column_def set_column_def map_of_set_column_list)

lemma column_names_set_column:
  "get_column data name = Some c0 \<Longrightarrow> column_names (set_column data name c) = column_names data"
  by (simp add: get_column_def set_column_def column_names_def names_set_column_list
      map_of_eq_Some_iff weak_map_of_SomeI domI dom_map_of_conv_image_fst [symmetric])

lemma index_set_column [simp]:
  "index_values (set_column data name c) = index_values data"
  "index_name (set_column data name c) = index_name data"
  by (simp_all add: set_column_def)

lemma fill_value_of_error: "fill_value_of c = Inl err \<Longrightarrow> err = LookupError"
  by (auto simp: fill_value_of_def split: if_splits list.splits)

lemma fill_column_error: "fill_column c = Inl err \<Longrightarrow> err = LookupError"
  by (auto simp: fill_column_def dest: fill_value_of_error split: sum.splits)

lemma get_column_names: "get_column data name \<noteq> None \<longleftrightarrow> name \<in> set (column_names data)"
  by (simp add: get_column_def column_names_def map_of_eq_None_iff)

lemma impute_loop_error:
  "set ns \<subseteq> set (column_names data) \<Longrightarrow> impute_loop ns data = Inl err \<Longrightarrow> err = LookupError"
proof (induction ns arbitrary: data)
  case Nil
  then show ?case by simp
next
  case (Cons n ns)
  from Cons.prems(1) obtain c where c: "get_column data n = Some c"
    using get_column_names [of data n] by auto
  show ?case
  proof (cases "fill_column c")
    case (Inl e)
    with c Cons.prems(2) show ?thesis by (auto dest: fill_column_error)
  next
    case (Inr c1)
    let ?d = "set_column data n c1"
    have "set ns \<subseteq> set (column_names ?d)"
      using Cons.prems(1) c by (simp add: column_names_set_column)
    moreover have "impute_loop ns ?d = Inl err"
      using Cons.prems(2) c Inr by simp
    ultimately show ?thesis by (rule Cons.IH)
  qed
qed


lemma set_column_list_distinct:
  "distinct (map fst cs) \<Longrightarrow> map_of cs name = Some c0 \<Longrightarrow>
   set_column_list cs name c = map (\<lambda>(k, x). if k = name then (k, c) else (k, x)) cs"
proof (induction cs)
  case Nil
  then show ?case by simp
next
  case (Cons p cs)
  obtain k x where p: "p = (k, x)" by (cases p)
  show ?case
  proof (cases "k = name")
    case True
    have "map (\<lambda>(k, x). if k = name then (k, c) else (k, x)) cs = cs"
      using Cons.prems(1) p True by (intro map_idI) (auto simp: rev_image_eqI)
    with p True show ?thesis by simp
  next
    case False
    with Cons p show ?thesis by simp
  qed
qed

lemma impute_loop_index:
  "impute_loop ns data = Inr data' \<Longrightarrow>
   index_values data' = index_values data \<and> index_name data' = index_name data"
  by (induction ns arbitrary: data) (auto split: option.splits sum.splits)

lemma impute_loop_columns:
  assumes "distinct (column_names data)" "distinct ns" "set ns \<subseteq> set (column_names data)"
    and "impute_loop ns data = Inr data'"
  shows "list_all2 (\<lambda>(n, c) (n', c'). n' = n \<and>
            (if n \<in> set ns then fill_column c = Inr c' else c' = c))
           (columns data) (columns data')"
  using assms
proof (induction ns arbitrary: data)
  case Nil
  then show ?case by (simp add: list_all2_same split_beta)
next
  case (Cons n ns)
  from Cons.prems(3) obtain c where c: "get_column data n = Some c"
    using get_column_names [of data n] by auto
  from Cons.prems(4) c obtain c1 where c1: "fill_column c = Inr c1"
    by (cases "fill_column c") auto
  let ?d = "set_column data n c1"
  let ?f = "\<lambda>(k, x). if k = n then (k, c1) else (k, x)"
  let ?R = "\<lambda>ns. (\<lambda>(n, c) (n', c'). n' = n \<and>
            (if n \<in> set ns then fill_column c = Inr c' else c' = c))"
  have cols: "columns ?d = map ?f (columns data)"
    using Cons.prems(1) c
    by (simp add: set_column_def column_names_def get_column_def set_column_list_distinct)
  have names: "column_names ?d = column_names data"
    using c by (rule column_names_set_column)
  have loop: "impute_loop ns ?d = Inr data'"
    using Cons.prems(4) c c1 by simp
  have ih: "list_all2 (?R ns) (map ?f (columns data)) (columns data')"
    using Cons.IH [of ?d] Cons.prems(1,2,3) names loop cols by simp
  have uniq: "\<And>k x. (k, x) \<in> set (columns data) \<Longrightarrow> k = n \<Longrightarrow> x = c"
    using Cons.prems(1) c by (simp add: column_names_def get_column_def)
  show ?case
    using ih unfolding list_all2_map1
  proof (rule list.rel_mono_strong)
    fix p q
    assume p: "p \<in> set (columns data)" and r: "?R ns (?f p) q"
    obtain k x where pk: "p = (k, x)" by (cases p)
    obtain k' x' where qk: "q = (k', x')" by (cases q)
    show "?R (n # ns) p q"
    proof (cases "k = n")
      case True
      then have "x = c" using uniq p pk by simp
      with True r pk qk c1 Cons.prems(2) show ?thesis by simp
    next
      case False
      with r pk qk show ?thesis by simp
    qed
  qed
qed

lemma impute_frame_columns:
  assumes "distinct (column_names data)" and "impute_frame data = Inr data'"
  shows "index_values data' = index_values data \<and> index_name data' = index_name data
    \<and> list_all2 (\<lambda>(n, c) (n', c'). n' = n \<and> fill_column c = Inr c') (columns data) (columns data')"
proof -
  have "list_all2 (\<lambda>(n, c) (n', c'). n' = n \<and>
            (if n \<in> set (column_names data) then fill_column c = Inr c' else c' = c))
           (columns data) (columns data')"
    using assms by (intro impute_loop_columns) (simp_all add: impute_frame_def)
  then have "list_all2 (\<lambda>(n, c) (n', c'). n' = n \<and> fill_column c = Inr c')
     (columns data) (columns data')"
    by (rule list.rel_mono_strong) (auto simp: column_names_def rev_image_eqI)
  then show ?thesis
    using assms(2) impute_loop_index [of "column_names data" data data']
    by (simp add: impute_frame_def)
qed

lemma set_unique [simp]: "set (unique xs) = set xs"
  by (simp add: unique_def)

lemma distinct_unique [simp]: "distinct (unique xs)"
  by (simp add: unique_def)

lemma set_sort_modes [simp]: "set (sort_modes vs) = set vs"
  by (simp add: sort_modes_def)

lemma series_mode_present: "v \<in> set (series_mode cs) \<Longrightarrow> v \<in> set cs \<and> \<not> is_na v"
  by (auto simp: series_mode_def Let_def)

lemma series_mode_all_na: "\<forall>x \<in> set cs. is_na x \<Longrightarrow> series_mode cs = []"
  by (simp add: series_mode_def Let_def filter_False sort_modes_def unique_def)

lemma series_mean_na: "is_na (series_mean cs) \<longleftrightarrow> (\<forall>x \<in> set cs. \<not> is_number x)"
proof -
  have "List.map_filter num_of cs = [] \<longleftrightarrow> (\<forall>x \<in> set cs. \<not> is_number x)"
  proof (induction cs)
    case Nil
    show ?case by (simp add: List.map_filter_simps)
  next
    case (Cons a cs)
    then show ?case by (cases a rule: num_of.cases) (simp_all add: List.map_filter_simps)
  qed
  then show ?thesis by (simp add: series_mean_def Let_def is_na_def)
qed

lemma fill_column_complete:
  assumes "fill_column c = Inr c'"
  shows "dtype c' = dtype c \<and> length (cells c') = length (cells c)
    \<and> ((\<forall>x \<in> set (cells c'). \<not> is_na x)
       \<or> (dtype c \<in> {Int64, Float64} \<and> (\<forall>x \<in> set (cells c). \<not> is_number x)))"
proof -
  from assms obtain fv where fv: "fill_value_of c = Inr fv"
    and c': "c' = c\<lparr>cells := fillna fv (cells c)\<rparr>"
    by (auto simp: fill_column_def split: sum.splits)
  have "\<not> is_na fv \<or> (dtype c \<in> {Int64, Float64} \<and> (\<forall>x \<in> set (cells c). \<not> is_number x))"
  proof (cases "dtype c \<in> {Int64, Float64}")
    case True
    with fv have "fv = series_mean (cells c)" by (simp add: fill_value_of_def)
    with True series_mean_na [of "cells c"] show ?thesis by auto
  next
    case False
    with fv obtain vs where "series_mode (cells c) = fv # vs"
      by (auto simp: fill_value_of_def split: list.splits)
    then have "fv \<in> set (series_mode (cells c))" by simp
    then show ?thesis using series_mode_present by blast
  qed
  then show ?thesis
    using c' by (auto simp: fillna_def)
qed


lemma fill_column_complete':
  assumes "fill_column c = Inr c'"
  shows "(\<forall>x \<in> set (cells c'). \<not> is_na x)
       \<or> (dtype c' \<in> {Int64, Float64} \<and> (\<forall>x \<in> set (cells c'). \<not> is_number x))"
proof -
  from assms obtain fv where fv: "fill_value_of c = Inr fv"
    and c': "c' = c\<lparr>cells := fillna fv (cells c)\<rparr>"
    by (auto simp: fill_column_def split: sum.splits)
  show ?thesis
  proof (cases "is_na fv")
    case False
    with c' show ?thesis by (auto simp: fillna_def)
  next
    case True
    have num: "dtype c \<in> {Int64, Float64}"
    proof (rule ccontr)
      assume "dtype c \<notin> {Int64, Float64}"
      with fv obtain vs where "series_mode (cells c) = fv # vs"
        by (auto simp: fill_value_of_def split: list.splits)
      then have "fv \<in> set (series_mode (cells c))" by simp
      with True show False using series_mode_present by blast
    qed
    with fv have "fv = series_mean (cells c)" by (simp add: fill_value_of_def)
    with True have "\<forall>x \<in> set (cells c). \<not> is_number x"
      using series_mean_na [of "cells c"] by simp
    moreover have "\<not> is_number fv" using True by (auto simp: is_na_def)
    ultimately show ?thesis using c' num by (auto simp: fillna_def)
  qed
qed

text \<open>
  Claim C4 as stated: \<^verbatim>\<open>_impute\<close> does not mutate the table passed to it, and the caller's
  table still holds its missing values afterwards. It does not hold: line 104 assigns
  each filled column into \<open>data\<close> itself. For the table with the scores 1, \<open>NaN\<close>, 3
  the object the caller holds has the scores 1, 2, 3 after the call.
\<close>

theorem impute_overwrites_callers_table:
  "impute scores_store 0 = Inr (scores_store(0 := scores_filled), 0)
   \<and> get_column (scores_store 0) ''score''
       = Some \<lparr>dtype = Float64, cells = [Scalar (Num 1), Scalar NaN, Scalar (Num 3)]\<rparr>
   \<and> get_column ((scores_store(0 := scores_filled)) 0) ''score''
       = Some \<lparr>dtype = Float64, cells = [Scalar (Num 1), Scalar (Num 2), Scalar (Num 3)]\<rparr>"
  by (simp add: impute_def impute_frame_def scores_store_def scores_frame_def scores_filled_def
      column_names_def get_column_def fill_column_def fill_value_of_def series_mean_def
      List.map_filter_simps fillna_def is_na_def set_column_def)

lemma list_all2_right_witness:
  "list_all2 R xs ys \<Longrightarrow> y \<in> set ys \<Longrightarrow> \<exists>x \<in> set xs. R x y"
  by (induction rule: list_all2_induct) auto

text \<open>
  Claim C4, amended: \<^verbatim>\<open>_impute\<close> fills the table in place. It returns the object it was
  given; no other object changes; the row labels stay; and (for distinct column labels)
  the caller's table now holds, column by column, the filled column, in which no cell is
  missing unless the column is numeric and holds no number at all.
\<close>

theorem impute_in_place:
  assumes "impute h data = Inr (h', r)"
  shows "r = data \<and> h' = h(data := h' data)
    \<and> index_values (h' data) = index_values (h data)
    \<and> (distinct (column_names (h data)) \<longrightarrow>
        list_all2 (\<lambda>(n, c) (n', c'). n' = n \<and> fill_column c = Inr c')
          (columns (h data)) (columns (h' data))
        \<and> (\<forall>(n', c') \<in> set (columns (h' data)).
             (\<forall>x \<in> set (cells c'). \<not> is_na x)
             \<or> (dtype c' \<in> {Int64, Float64} \<and> (\<forall>x \<in> set (cells c'). \<not> is_number x))))"
proof -
  obtain filled where f: "impute_frame (h data) = Inr filled"
    and h': "h' = h(data := filled)" and r: "r = data"
  proof (cases "impute_frame (h data)")
    case (Inl err)
    with assms show ?thesis by (simp add: impute_def)
  next
    case (Inr filled)
    have "Inr (h(data := filled), data) = (Inr (h', r) :: error + store \<times> ref)"
      using assms unfolding impute_def Inr by (simp only: sum.case)
    then have "h' = h(data := filled)" and "r = data" by blast+
    with Inr show ?thesis by (rule that)
  qed
  have idx: "index_values filled = index_values (h data)"
    using f impute_loop_index by (simp add: impute_frame_def)
  have cols: "list_all2 (\<lambda>(n, c) (n', c'). n' = n \<and> fill_column c = Inr c')
          (columns (h data)) (columns filled)" if "distinct (column_names (h data))"
    using impute_frame_columns [OF that f] by simp
  have full: "(\<forall>x \<in> set (cells c'). \<not> is_na x)
             \<or> (dtype c' \<in> {Int64, Float64} \<and> (\<forall>x \<in> set (cells c'). \<not> is_number x))"
    if d: "distinct (column_names (h data))" and m: "(n', c') \<in> set (columns filled)" for n' c'
  proof -
    from list_all2_right_witness [OF cols [OF d] m]
    obtain p where "p \<in> set (columns (h data))"
      and "(case p of (n, c) \<Rightarrow> \<lambda>(n', c'). n' = n \<and> fill_column c = Inr c') (n', c')"
      by blast
    then obtain c where "fill_column c = Inr c'" by (cases p) auto
    then show ?thesis by (rule fill_column_complete')
  qed
  have at: "h' data = filled" using h' by simp
  have "h' = h(data := h' data)" using h' by simp
  moreover have "index_values (h' data) = index_values (h data)" using at idx by simp
  moreover have "distinct (column_names (h data)) \<longrightarrow>
        list_all2 (\<lambda>(n, c) (n', c'). n' = n \<and> fill_column c = Inr c')
          (columns (h data)) (columns (h' data))
        \<and> (\<forall>(n', c') \<in> set (columns (h' data)).
             (\<forall>x \<in> set (cells c'). \<not> is_na x)
             \<or> (dtype c' \<in> {Int64, Float64} \<and> (\<forall>x \<in> set (cells c'). \<not> is_number x)))"
    unfolding at using cols full by blast
  ultimately show ?thesis using r by blast
qed

text \<open>The amended claim at the scores table.\<close>

theorem impute_in_place_witness:
  "impute scores_store 0 = Inr (scores_store(0 := scores_filled), 0)
   \<and> (scores_store(0 := scores_filled)) 0 = scores_filled
   \<and> index_values scores_filled = index_values (scores_store 0)
   \<and> distinct (column_names (scores_store 0))
   \<and> list_all2 (\<lambda>(n, c) (n', c'). n' = n \<and> fill_column c = Inr c')
          (columns (scores_store 0)) (columns scores_filled)"
proof -
  have run: "impute scores_store 0 = Inr (scores_store(0 := scores_filled), 0)"
    by (simp add: impute_def impute_frame_def scores_store_def scores_frame_def
        scores_filled_def column_names_def get_column_def fill_column_def fill_value_of_def
        series_mean_def List.map_filter_simps fillna_def is_na_def set_column_def)
  have d: "distinct (column_names (scores_store 0))"
    by (simp add: scores_store_def scores_frame_def column_names_def)
  show ?thesis
    using run d impute_in_place [OF run] by simp
qed


lemma fill_column_all_missing_object:
  "dtype c \<notin> {Int64, Float64} \<Longrightarrow> \<forall>x \<in> set (cells c). is_na x \<Longrightarrow> fill_column c = Inl LookupError"
  by (simp add: fill_column_def fill_value_of_def series_mode_all_na)

lemma fill_column_numeric:
  "dtype c \<in> {Int64, Float64} \<Longrightarrow>
   fill_column c = Inr (c\<lparr>cells := fillna (series_mean (cells c)) (cells c)\<rparr>)"
  by (auto simp: fill_column_def fill_value_of_def)

lemma fill_column_all_missing_numeric:
  assumes "dtype c \<in> {Int64, Float64}" and "\<forall>x \<in> set (cells c). is_na x"
    and "fill_column c = Inr c'"
  shows "dtype c' \<in> {Int64, Float64} \<and> length (cells c') = length (cells c)
    \<and> (\<forall>x \<in> set (cells c'). is_na x)"
proof -
  have "\<forall>x \<in> set (cells c). \<not> is_number x"
    using assms(2) by (auto simp: is_na_def)
  then have "is_na (series_mean (cells c))" by (simp add: series_mean_na)
  then show ?thesis
    using assms by (auto simp: fill_column_numeric fillna_def)
qed

lemma impute_loop_all_missing_object:
  assumes "set ns \<subseteq> set (column_names data)" and "name \<in> set ns"
    and "get_column data name = Some c" and "dtype c \<notin> {Int64, Float64}"
    and "\<forall>x \<in> set (cells c). is_na x"
  shows "impute_loop ns data = Inl LookupError"
  using assms(1,2,3)
proof (induction ns arbitrary: data)
  case Nil
  then show ?case by simp
next
  case (Cons n ns)
  from Cons.prems(1) obtain c0 where c0: "get_column data n = Some c0"
    using get_column_names [of data n] by auto
  show ?case
  proof (cases "fill_column c0")
    case (Inl e)
    then have "e = LookupError" by (rule fill_column_error)
    with Inl c0 show ?thesis by simp
  next
    case (Inr c1)
    have ne: "n \<noteq> name"
      using Inr c0 Cons.prems(3) fill_column_all_missing_object [OF assms(4,5)] by auto
    let ?d = "set_column data n c1"
    have "set ns \<subseteq> set (column_names ?d)"
      using Cons.prems(1) c0 by (simp add: column_names_set_column)
    moreover have "name \<in> set ns" using Cons.prems(2) ne by simp
    moreover have "get_column ?d name = Some c"
      using Cons.prems(3) ne by (simp add: get_column_set_column)
    ultimately have "impute_loop ns ?d = Inl LookupError" by (rule Cons.IH)
    with c0 Inr show ?thesis by simp
  qed
qed

lemma impute_loop_all_missing_numeric:
  assumes "impute_loop ns data = Inr data'" and "get_column data name = Some c"
    and "dtype c \<in> {Int64, Float64}" and "\<forall>x \<in> set (cells c). is_na x"
  shows "\<exists>c'. get_column data' name = Some c' \<and> dtype c' \<in> {Int64, Float64}
    \<and> length (cells c') = length (cells c) \<and> (\<forall>x \<in> set (cells c'). is_na x)"
  using assms
proof (induction ns arbitrary: data c)
  case Nil
  then show ?case by simp
next
  case (Cons n ns)
  from Cons.prems(1) obtain c0 c1 where c0: "get_column data n = Some c0"
    and c1: "fill_column c0 = Inr c1"
    and loop: "impute_loop ns (set_column data n c1) = Inr data'"
    by (auto split: option.splits sum.splits)
  show ?case
  proof (cases "n = name")
    case True
    with c0 Cons.prems(2) have "c0 = c" by simp
    with c1 Cons.prems(3,4) have q: "dtype c1 \<in> {Int64, Float64}"
      "length (cells c1) = length (cells c)" "\<forall>x \<in> set (cells c1). is_na x"
      using fill_column_all_missing_numeric [of c c1] by simp_all
    have "get_column (set_column data n c1) name = Some c1"
      using True by (simp add: get_column_set_column)
    from Cons.IH [OF loop this q(1,3)] q(2) show ?thesis by simp
  next
    case False
    then have "get_column (set_column data n c1) name = Some c"
      using Cons.prems(2) by (simp add: get_column_set_column)
    from Cons.IH [OF loop this Cons.prems(3,4)] show ?thesis .
  qed
qed

lemma impute_loop_succeeds:
  assumes "distinct ns"
    and "\<forall>n \<in> set ns. \<exists>c c'. get_column data n = Some c \<and> fill_column c = Inr c'"
  shows "\<exists>data'. impute_loop ns data = Inr data'"
  using assms
proof (induction ns arbitrary: data)
  case Nil
  then show ?case by simp
next
  case (Cons n ns)
  from Cons.prems(2) obtain c c' where c: "get_column data n = Some c"
    and c': "fill_column c = Inr c'" by auto
  have "\<forall>k \<in> set ns. \<exists>c0 c1. get_column (set_column data n c') k = Some c0 \<and> fill_column c0 = Inr c1"
    using Cons.prems by (auto simp: get_column_set_column)
  with Cons.prems(1) have "\<exists>data'. impute_loop ns (set_column data n c') = Inr data'"
    by (intro Cons.IH) simp_all
  with c c' show ?case by simp
qed

text \<open>
  Claim C5 as stated: a column that is missing in every row makes imputation fail with
  an \<^verbatim>\<open>ImputationError\<close>. It does not hold: for a float column the mean is \<open>NaN\<close>,
  \<^verbatim>\<open>fillna(NaN)\<close> changes nothing, and the call returns normally.
\<close>

theorem impute_entirely_missing_no_error:
  "impute gaps_store 0 = Inr (gaps_store(0 := gaps_frame), 0)
   \<and> get_column (gaps_store 0) ''score'' = Some \<lparr>dtype = Float64, cells = [Scalar NaN, Scalar NaN]\<rparr>"
  by (simp add: impute_def impute_frame_def gaps_store_def gaps_frame_def
      column_names_def get_column_def fill_column_def fill_value_of_def series_mean_def
      List.map_filter_simps fillna_def is_na_def set_column_def)

text \<open>
  Claim C5, amended: a column that is missing in every row makes imputation fail exactly
  when its dtype is neither int64 nor float64, and the error is then the lookup error of
  \<^verbatim>\<open>mode()[0]\<close> on an empty mode (the only error \<^verbatim>\<open>_impute\<close> raises; the module has no
  \<^verbatim>\<open>ImputationError\<close>). An int64 or float64 column that is missing in every row raises
  nothing: when the call returns, the column is still missing in every row, and the call
  does return when every other column has a fill value.
\<close>

theorem impute_entirely_missing_column:
  assumes "get_column (h data) name = Some c" and "\<forall>x \<in> set (cells c). is_na x"
  shows "(dtype c \<notin> {Int64, Float64} \<longrightarrow> impute h data = Inl LookupError)
    \<and> (dtype c \<in> {Int64, Float64} \<longrightarrow>
         (\<forall>h' r. impute h data = Inr (h', r) \<longrightarrow>
            (\<exists>c'. get_column (h' data) name = Some c' \<and> length (cells c') = length (cells c)
                \<and> (\<forall>x \<in> set (cells c'). is_na x)))
         \<and> (distinct (column_names (h data))
              \<and> (\<forall>n c0. n \<noteq> name \<and> get_column (h data) n = Some c0
                    \<longrightarrow> (\<exists>c1. fill_column c0 = Inr c1))
            \<longrightarrow> (\<exists>h'. impute h data = Inr (h', data))))
    \<and> (\<forall>err. impute h data = Inl err \<longrightarrow> err = LookupError)"
proof (intro conjI impI allI)
  assume obj: "dtype c \<notin> {Int64, Float64}"
  have "name \<in> set (column_names (h data))"
    using assms(1) get_column_names [of "h data" name] by simp
  then have "impute_loop (column_names (h data)) (h data) = Inl LookupError"
    using assms obj by (intro impute_loop_all_missing_object [where name = name and c = c]) simp_all
  then show "impute h data = Inl LookupError"
    by (simp add: impute_def impute_frame_def)
next
  fix h' r
  assume num: "dtype c \<in> {Int64, Float64}" and run: "impute h data = Inr (h', r)"
  then obtain filled where f: "impute_frame (h data) = Inr filled" and at: "h' data = filled"
    by (cases "impute_frame (h data)") (auto simp: impute_def)
  from impute_loop_all_missing_numeric [OF f [unfolded impute_frame_def] assms(1) num assms(2)]
  show "\<exists>c'. get_column (h' data) name = Some c' \<and> length (cells c') = length (cells c)
                \<and> (\<forall>x \<in> set (cells c'). is_na x)"
    using at by auto
next
  assume num: "dtype c \<in> {Int64, Float64}"
    and rest: "distinct (column_names (h data))
              \<and> (\<forall>n c0. n \<noteq> name \<and> get_column (h data) n = Some c0
                    \<longrightarrow> (\<exists>c1. fill_column c0 = Inr c1))"
  have "\<forall>n \<in> set (column_names (h data)).
          \<exists>c0 c1. get_column (h data) n = Some c0 \<and> fill_column c0 = Inr c1"
  proof
    fix n assume "n \<in> set (column_names (h data))"
    then obtain c0 where c0: "get_column (h data) n = Some c0"
      using get_column_names [of "h data" n] by auto
    show "\<exists>c0 c1. get_column (h data) n = Some c0 \<and> fill_column c0 = Inr c1"
    proof (cases "n = name")
      case True
      with c0 assms(1) num show ?thesis by (auto simp: fill_column_numeric)
    next
      case False
      with c0 rest show ?thesis by blast
    qed
  qed
  with rest obtain data' where "impute_loop (column_names (h data)) (h data) = Inr data'"
    using impute_loop_succeeds by blast
  then show "\<exists>h'. impute h data = Inr (h', data)"
    by (simp add: impute_def impute_frame_def)
next
  fix err assume e: "impute h data = Inl err"
  then have "impute_loop (column_names (h data)) (h data) = Inl err"
    by (cases "impute_frame (h data)") (auto simp: impute_def impute_frame_def)
  then show "err = LookupError"
    by (intro impute_loop_error [of "column_names (h data)" "h data"]) simp_all
qed

text \<open>The amended claim at a table with an empty object column and at one with an empty
  float column.\<close>

theorem impute_entirely_missing_column_witness:
  "get_column (nameless_store 0) ''name'' = Some \<lparr>dtype = Object, cells = [Scalar PNone, Scalar PNone]\<rparr>
   \<and> impute nameless_store 0 = Inl LookupError
   \<and> get_column (gaps_store 0) ''score'' = Some \<lparr>dtype = Float64, cells = [Scalar NaN, Scalar NaN]\<rparr>
   \<and> (\<exists>h'. impute gaps_store 0 = Inr (h', 0))"
proof -
  have a: "get_column (nameless_store 0) ''name''
      = Some \<lparr>dtype = Object, cells = [Scalar PNone, Scalar PNone]\<rparr>"
    by (simp add: nameless_store_def nameless_frame_def get_column_def)
  have b: "\<forall>x \<in> set (cells \<lparr>dtype = Object, cells = [Scalar PNone, Scalar PNone]\<rparr>). is_na x"
    by (simp add: is_na_def)
  have c: "get_column (gaps_store 0) ''score''
      = Some \<lparr>dtype = Float64, cells = [Scalar NaN, Scalar NaN]\<rparr>"
    by (simp add: gaps_store_def gaps_frame_def get_column_def)
  have d: "\<forall>x \<in> set (cells \<lparr>dtype = Float64, cells = [Scalar NaN, Scalar NaN]\<rparr>). is_na x"
    by (simp add: is_na_def)
  have e: "distinct (column_names (gaps_store 0))
     \<and> (\<forall>n c0. n \<noteq> ''score'' \<and> get_column (gaps_store 0) n = Some c0
            \<longrightarrow> (\<exists>c1. fill_column c0 = Inr c1))"
    by (simp add: gaps_store_def gaps_frame_def get_column_def column_names_def)
  show ?thesis
    using a c e
      impute_entirely_missing_column [of nameless_store 0 "''name''"
        "\<lparr>dtype = Object, cells = [Scalar PNone, Scalar PNone]\<rparr>", OF a b]
      impute_entirely_missing_column [of gaps_store 0 "''score''"
        "\<lparr>dtype = Float64, cells = [Scalar NaN, Scalar NaN]\<rparr>", OF c d]
    by simp
qed

section \<open>The encoding of a fitted model\<close>

lemma log_stds_other: "r \<notin> set rs \<Longrightarrow> log_stds lg rs objs r = objs r"
  by (induction rs arbitrary: objs) auto

lemma log_stds_none: "std (objs r) = PNone \<Longrightarrow> log_stds lg rs objs r = objs r"
proof (induction rs arbitrary: objs)
  case Nil
  show ?case by simp
next
  case (Cons a rs)
  let ?objs = "if std (objs a) \<noteq> PNone then objs(a := (objs a)\<lparr>std := lg (std (objs a))\<rparr>) else objs"
  have same: "?objs r = objs r" using Cons.prems by auto
  then have "log_stds lg rs ?objs r = ?objs r"
    using Cons.prems by (intro Cons.IH) simp
  with same show ?case by simp
qed

lemma log_stds_some:
  "distinct rs \<Longrightarrow> r \<in> set rs \<Longrightarrow> std (objs r) \<noteq> PNone \<Longrightarrow>
   log_stds lg rs objs r = (objs r)\<lparr>std := lg (std (objs r))\<rparr>"
proof (induction rs arbitrary: objs)
  case Nil
  then show ?case by simp
next
  case (Cons a rs)
  let ?objs = "if std (objs a) \<noteq> PNone then objs(a := (objs a)\<lparr>std := lg (std (objs a))\<rparr>) else objs"
  show ?case
  proof (cases "r = a")
    case True
    then have "r \<notin> set rs" using Cons.prems(1) by simp
    then have "log_stds lg rs ?objs r = ?objs r" by (rule log_stds_other)
    with True Cons.prems(3) show ?thesis by simp
  next
    case False
    then have same: "?objs r = objs r" by simp
    have "log_stds lg rs ?objs r = (?objs r)\<lparr>std := lg (std (?objs r))\<rparr>"
      using Cons.prems False by (intro Cons.IH) (simp_all only: same, simp_all)
    with same show ?thesis by simp
  qed
qed

text \<open>
  Claim C6: for every column's descriptor of a fitted model (each column having a
  descriptor object of its own), the scale is replaced by its logarithm when it is not
  \<^verbatim>\<open>None\<close>, and the descriptor is left exactly as it was when it is \<^verbatim>\<open>None\<close>. The
  dictionary \<^verbatim>\<open>distribs\<close> itself is not changed.
\<close>

theorem encode_model_scale:
  assumes "distinct (map snd (distribs model))" and "(name, r) \<in> set (distribs model)"
  shows "distribs (encode_model lg model) = distribs model
    \<and> (std (descriptors model r) = PNone \<longrightarrow>
         descriptors (encode_model lg model) r = descriptors model r)
    \<and> (std (descriptors model r) \<noteq> PNone \<longrightarrow>
         descriptors (encode_model lg model) r
           = (descriptors model r)\<lparr>std := lg (std (descriptors model r))\<rparr>)"
proof -
  have "r \<in> set (map snd (distribs model))"
    using assms(2) by force
  then show ?thesis
    using assms(1) by (simp add: encode_model_def log_stds_none log_stds_some)
qed

text \<open>
  The claim at the model of two columns: the scale 2 becomes \<open>ln 2\<close>, the absent scale
  stays absent.
\<close>

theorem encode_model_scale_witness:
  "distinct (map snd (distribs two_column_model))
   \<and> (''a'', 0) \<in> set (distribs two_column_model)
   \<and> (''b'', 1) \<in> set (distribs two_column_model)
   \<and> std (descriptors two_column_model 0) = Num 2
   \<and> std (descriptors two_column_model 1) = PNone
   \<and> descriptors (encode_model log_positive two_column_model) 0 = \<lparr>std = Num (ln 2)\<rparr>
   \<and> descriptors (encode_model log_positive two_column_model) 1 = \<lparr>std = PNone\<rparr>"
proof -
  have d: "distinct (map snd (distribs two_column_model))"
    by (simp add: two_column_model_def)
  have a: "(''a'', 0) \<in> set (distribs two_column_model)"
    by (simp add: two_column_model_def)
  have b: "(''b'', 1) \<in> set (distribs two_column_model)"
    by (simp add: two_column_model_def)
  show ?thesis
    using d a b encode_model_scale [OF d a, of log_positive] encode_model_scale [OF d b, of log_positive]
    by (simp add: two_column_model_def)
qed

lemma np_tril_length [simp]: "length (np_tril m) = length m"
  by (simp add: np_tril_def)

lemma np_tril_nth:
  "i < length m \<Longrightarrow>
   np_tril m ! i = map (\<lambda>(j, x). if j \<le> i then x else 0) (enumerate 0 (m ! i))"
  by (simp add: np_tril_def nth_enumerate_eq)

lemma take_tril_row:
  "take (Suc i) (map (\<lambda>(j, x). if j \<le> i then x else (0::real)) (enumerate 0 row)) = take (Suc i) row"
  by (rule nth_equalityI) (simp_all add: nth_enumerate_eq)

lemma covariance_values_length [simp]: "length (covariance_values m) = length m"
  by (simp add: covariance_values_def)

lemma covariance_values_nth:
  "i < length m \<Longrightarrow> covariance_values m ! i = take (Suc i) (m ! i)"
  by (simp add: covariance_values_def nth_enumerate_eq np_tril_nth take_tril_row)

lemma covariance_values_nth_tril:
  "i < length m \<Longrightarrow> covariance_values m ! i = take (Suc i) (np_tril m ! i)"
  by (simp add: covariance_values_def nth_enumerate_eq)

lemma take_np_tril_nth:
  "i < length m \<Longrightarrow> take (Suc i) (np_tril m ! i) = take (Suc i) (m ! i)"
  by (simp add: np_tril_nth take_tril_row)

lemma sum_upto_Suc: "(\<Sum>i\<leftarrow>[0..<n]. Suc i) = n * (n + 1) div 2"
  by (induction n) simp_all

lemma covariance_values_count:
  assumes "symmetric_matrix n m"
  shows "sum_list (map length (covariance_values m)) = n * (n + 1) div 2"
proof -
  have len: "length m = n" and rows: "\<And>i. i < n \<Longrightarrow> length (m ! i) = n"
    using assms by (auto simp: symmetric_matrix_def)
  have "map length (covariance_values m) = map Suc [0..<n]"
    by (rule nth_equalityI) (simp_all add: len covariance_values_nth rows)
  then show ?thesis by (simp add: sum_upto_Suc)
qed

lemma rebuild_covariance_values:
  assumes "symmetric_matrix n m"
  shows "rebuild_symmetric (covariance_values m) = m"
proof -
  have len: "length m = n" and rows: "\<And>i. i < n \<Longrightarrow> length (m ! i) = n"
    and sym: "\<And>i j. i < n \<Longrightarrow> j < n \<Longrightarrow> m ! i ! j = m ! j ! i"
    using assms by (auto simp: symmetric_matrix_def)
  show ?thesis
  proof (rule nth_equalityI)
    show "length (rebuild_symmetric (covariance_values m)) = length m"
      by (simp add: rebuild_symmetric_def)
  next
    fix i assume "i < length (rebuild_symmetric (covariance_values m))"
    then have i: "i < n" by (simp add: rebuild_symmetric_def len)
    show "rebuild_symmetric (covariance_values m) ! i = m ! i"
    proof (rule nth_equalityI)
      show "length (rebuild_symmetric (covariance_values m) ! i) = length (m ! i)"
        using i by (simp add: rebuild_symmetric_def len rows)
    next
      fix j assume "j < length (rebuild_symmetric (covariance_values m) ! i)"
      then have j: "j < n" using i by (simp add: rebuild_symmetric_def len)
      show "rebuild_symmetric (covariance_values m) ! i ! j = m ! i ! j"
        using i j sym [of i j]
        by (simp add: rebuild_symmetric_def len covariance_values_nth)
    qed
  qed
qed

text \<open>
  Claim C3: for a symmetric covariance matrix of \<open>n\<close> rows and columns, the encoding
  stores \<open>n\<close> rows; row \<open>i\<close> is the first \<open>i + 1\<close> entries of row \<open>i\<close> of the lower
  triangle, which are those of the matrix itself; \<open>n (n + 1) / 2\<close> values are kept in
  all; and the matrix is rebuilt from them.
\<close>

theorem encode_model_covariance:
  assumes "symmetric_matrix n (covariance model)"
  shows "length (covariance (encode_model lg model)) = n
    \<and> (\<forall>i < n. covariance (encode_model lg model) ! i = take (i + 1) (np_tril (covariance model) ! i)
             \<and> covariance (encode_model lg model) ! i = take (i + 1) (covariance model ! i)
             \<and> length (covariance (encode_model lg model) ! i) = i + 1)
    \<and> sum_list (map length (covariance (encode_model lg model))) = n * (n + 1) div 2
    \<and> rebuild_symmetric (covariance (encode_model lg model)) = covariance model"
proof -
  have len: "length (covariance model) = n"
    and rows: "\<And>i. i < n \<Longrightarrow> length (covariance model ! i) = n"
    using assms by (auto simp: symmetric_matrix_def)
  show ?thesis
    using covariance_values_count [OF assms] rebuild_covariance_values [OF assms]
    by (simp add: encode_model_def len rows covariance_values_nth take_np_tril_nth)
qed

text \<open>
  The claim at the matrix with the rows 4, 1 and 1, 9.
\<close>

theorem encode_model_covariance_witness:
  "symmetric_matrix 2 (covariance two_column_model)
   \<and> covariance (encode_model log_positive two_column_model) = [[4], [1, 9]]
   \<and> sum_list (map length (covariance (encode_model log_positive two_column_model))) = 2 * (2 + 1) div 2
   \<and> rebuild_symmetric (covariance (encode_model log_positive two_column_model)) = [[4, 1], [1, 9]]"
proof -
  have s: "symmetric_matrix 2 (covariance two_column_model)"
    by (simp add: symmetric_matrix_def two_column_model_def less_Suc_eq numeral_2_eq_2)
  have v: "covariance (encode_model log_positive two_column_model) = [[4], [1, 9]]"
    by (simp add: encode_model_def two_column_model_def covariance_values_def np_tril_def
        enumerate_eq_zip upt_rec)
  show ?thesis
    using s v encode_model_covariance [OF s, of log_positive]
    by (simp add: two_column_model_def)
qed

section \<open>The traversal: tables without a primary key\<close>

lemma keeps_values_refl: "keeps_values c c"
  by (simp add: keeps_values_def list_all2_same)

lemma keeps_values_trans:
  assumes "keeps_values a b" and "keeps_values b c"
  shows "keeps_values a c"
proof -
  have ab: "list_all2 (\<lambda>x y. \<not> is_na x \<longrightarrow> y = x) (cells a) (cells b)"
    and bc: "list_all2 (\<lambda>x y. \<not> is_na x \<longrightarrow> y = x) (cells b) (cells c)"
    using assms by (simp_all add: keeps_values_def)
  have "list_all2 (\<lambda>x y. \<not> is_na x \<longrightarrow> y = x) (cells a) (cells c)"
    by (rule list_all2_trans [OF _ ab bc]) auto
  then show ?thesis using assms by (simp add: keeps_values_def)
qed

lemma fill_column_keeps: "fill_column c = Inr c' \<Longrightarrow> keeps_values c c'"
  by (auto simp: fill_column_def keeps_values_def fillna_def list_all2_map2 list_all2_same
      split: sum.splits)

lemma impute_loop_keeps:
  assumes "impute_loop ns data = Inr data'" and "get_column data k = Some c"
  shows "\<exists>c'. get_column data' k = Some c' \<and> keeps_values c c'"
  using assms
proof (induction ns arbitrary: data c)
  case Nil
  then show ?case by (auto simp: keeps_values_refl)
next
  case (Cons n ns)
  from Cons.prems(1) obtain c0 c1 where c0: "get_column data n = Some c0"
    and c1: "fill_column c0 = Inr c1"
    and loop: "impute_loop ns (set_column data n c1) = Inr data'"
    by (auto split: option.splits sum.splits)
  show ?case
  proof (cases "n = k")
    case True
    with c0 Cons.prems(2) have "c0 = c" by simp
    with c1 have k1: "keeps_values c c1" by (simp add: fill_column_keeps)
    have "get_column (set_column data n c1) k = Some c1"
      using True by (simp add: get_column_set_column)
    from Cons.IH [OF loop this] k1 show ?thesis
      by (blast intro: keeps_values_trans)
  next
    case False
    then have "get_column (set_column data n c1) k = Some c"
      using Cons.prems(2) by (simp add: get_column_set_column)
    from Cons.IH [OF loop this] show ?thesis .
  qed
qed

lemma impute_loop_names:
  "set ns \<subseteq> set (column_names data) \<Longrightarrow> impute_loop ns data = Inr data' \<Longrightarrow>
   column_names data' = column_names data"
proof (induction ns arbitrary: data)
  case Nil
  then show ?case by simp
next
  case (Cons n ns)
  from Cons.prems(2) obtain c0 c1 where c0: "get_column data n = Some c0"
    and c1: "fill_column c0 = Inr c1"
    and loop: "impute_loop ns (set_column data n c1) = Inr data'"
    by (auto split: option.splits sum.splits)
  have names: "column_names (set_column data n c1) = column_names data"
    using c0 by (rule column_names_set_column)
  with Cons.prems(1) have "set ns \<subseteq> set (column_names (set_column data n c1))" by simp
  from Cons.IH [OF this loop] names show ?case by simp
qed

lemma impute_frame_shape:
  assumes "impute_frame data = Inr data'"
  shows "index_values data' = index_values data" "index_name data' = index_name data"
    "column_names data' = column_names data"
    "get_column data k = Some c \<Longrightarrow> \<exists>c'. get_column data' k = Some c' \<and> keeps_values c c'"
  using assms impute_loop_index [of "column_names data" data data']
    impute_loop_names [of "column_names data" data data']
    impute_loop_keeps [of "column_names data" data data' k c]
  by (simp_all add: impute_frame_def)

lemma fit_model_frame:
  "fit_model e data = Inr (model, imputed) \<Longrightarrow> impute_frame data = Inr imputed"
  by (auto simp: fit_model_def split: sum.splits)

lemma names_set_column_list_new:
  "name \<notin> fst ` set cs \<Longrightarrow> map fst (set_column_list cs name c) = map fst cs @ [name]"
  by (induction cs) auto

lemma column_names_set_column_if:
  "column_names (set_column data name c) =
     (if name \<in> set (column_names data) then column_names data else column_names data @ [name])"
  by (simp add: column_names_def set_column_def names_set_column_list names_set_column_list_new)

lemma assign_column_shape:
  assumes "assign_column extended key table = Inr result"
  shows "index_values result = index_values extended"
    "column_names result =
       (if key \<in> set (column_names extended) then column_names extended
        else column_names extended @ [key])"
    "k \<noteq> key \<Longrightarrow> get_column result k = get_column extended k"
  using assms
  by (auto simp: assign_column_def column_names_set_column_if get_column_set_column
      split: option.splits if_splits)

text \<open>
  Claim C8: for a table without a primary key, a call of \<^verbatim>\<open>cpa\<close> that returns gives back
  the transformed frame with the same number of rows and the same row labels in the same
  order; its columns are those of the transformed frame (and the foreign key column, when
  the call was given one), each with its dtype and every present cell where it was. No
  extension is computed or merged and no child is visited: the registry gains the model of
  this table only, a recursion depth of one suffices, and the children the metadata
  declares have no influence on the result.
\<close>

theorem cpa_without_primary_key:
  assumes nopk: "\<not> truthy (get_primary_key e table_name)"
    and ret: "cpa e (Suc n) models table_name tables foreign_key = Some (Inr (models', result))"
  shows "\<exists>table model.
      resolve_table e tables table_name = Inr table
    \<and> models' = models(table_name \<mapsto> model)
    \<and> nrows result = nrows (transform e table_name table)
    \<and> index_values result = index_values (transform e table_name table)
    \<and> column_names result =
        (if truthy foreign_key
            \<and> key_name foreign_key \<notin> set (column_names (transform e table_name table))
         then column_names (transform e table_name table) @ [key_name foreign_key]
         else column_names (transform e table_name table))
    \<and> (\<forall>k c. get_column (transform e table_name table) k = Some c
              \<and> (truthy foreign_key \<longrightarrow> k \<noteq> key_name foreign_key)
          \<longrightarrow> (\<exists>c'. get_column result k = Some c' \<and> keeps_values c c'))
    \<and> cpa e (Suc 0) models table_name tables foreign_key = Some (Inr (models', result))
    \<and> cpa (e\<lparr>get_children := children\<rparr>) (Suc n) models table_name tables foreign_key
        = Some (Inr (models', result))"
proof -
  from ret obtain table where tbl: "resolve_table e tables table_name = Inr table"
    by (cases "resolve_table e tables table_name") auto
  let ?T = "transform e table_name table"
  from ret tbl nopk obtain model imputed where fm: "fit_model e ?T = Inr (model, imputed)"
    by (cases "fit_model e ?T") (auto simp: Let_def)
  from ret tbl nopk fm have fin:
    "(if truthy foreign_key then assign_column imputed (key_name foreign_key) table
      else Inr imputed) = Inr result" and reg: "models' = models(table_name \<mapsto> model)"
    by (auto simp: Let_def split: sum.splits if_splits)
  have imp: "impute_frame ?T = Inr imputed" using fm by (rule fit_model_frame)
  note sh = impute_frame_shape [OF imp]
  have idx: "index_values result = index_values ?T"
    using fin sh(1) by (auto split: if_splits dest: assign_column_shape(1))
  have names: "column_names result =
        (if truthy foreign_key \<and> key_name foreign_key \<notin> set (column_names ?T)
         then column_names ?T @ [key_name foreign_key] else column_names ?T)"
    using fin sh(3) by (auto split: if_splits dest: assign_column_shape(2))
  have cols: "\<exists>c'. get_column result k = Some c' \<and> keeps_values c c'"
    if "get_column ?T k = Some c" and "truthy foreign_key \<longrightarrow> k \<noteq> key_name foreign_key" for k c
  proof -
    from sh(4) [OF that(1)] obtain c' where "get_column imputed k = Some c'" "keeps_values c c'"
      by blast
    moreover have "get_column result k = get_column imputed k"
      using fin that(2) by (auto split: if_splits dest: assign_column_shape(3))
    ultimately show ?thesis by simp
  qed
  have one: "cpa e (Suc 0) models table_name tables foreign_key = Some (Inr (models', result))"
    using tbl nopk fm fin reg by (auto simp: Let_def split: if_splits)
  have "resolve_table (e\<lparr>get_children := children\<rparr>) tables table_name
      = resolve_table e tables table_name"
    by (simp add: resolve_table_def)
  with tbl have rt: "resolve_table (e\<lparr>get_children := children\<rparr>) tables table_name = Inr table"
    by simp
  have "fit_model (e\<lparr>get_children := children\<rparr>) ?T = fit_model e ?T"
    by (simp add: fit_model_def cong: sum.case_cong)
  with fm have fm': "fit_model (e\<lparr>get_children := children\<rparr>) ?T = Inr (model, imputed)"
    by simp
  have other: "cpa (e\<lparr>get_children := children\<rparr>) (Suc n) models table_name tables foreign_key
        = Some (Inr (models', result))"
    using rt nopk fm' fin reg by (auto simp: Let_def split: if_splits)
  show ?thesis
    using tbl reg idx names cols one other by (auto simp: nrows_def)
qed

lemma orders_run:
  "\<exists>m. cpa shop (Suc 0) no_models ''orders'' None (Some ''user_id'')
        = Some (Inr (m, orders_result))"
  by (simp add: shop_def resolve_table_def shop_transform_def orders_table_def fit_model_def
      impute_frame_def column_names_def get_column_def fill_column_def fill_value_of_def
      series_mean_def List.map_filter_simps fillna_def is_na_def set_column_def shop_fit_def
      nrows_def assign_column_def orders_result_def)

text \<open>The claim at the orders of the example schema, which have no primary key.\<close>

theorem cpa_without_primary_key_witness:
  "\<not> truthy (get_primary_key shop ''orders'')
   \<and> (\<exists>m. cpa shop (Suc 0) no_models ''orders'' None (Some ''user_id'')
          = Some (Inr (m, orders_result)))
   \<and> nrows orders_result = nrows (transform shop ''orders'' orders_table)
   \<and> index_values orders_result = index_values (transform shop ''orders'' orders_table)
   \<and> column_names orders_result = [''amount'', ''user_id'']"
proof -
  have nopk: "\<not> truthy (get_primary_key shop ''orders'')"
    by (simp add: shop_def)
  obtain m where run: "cpa shop (Suc 0) no_models ''orders'' None (Some ''user_id'')
      = Some (Inr (m, orders_result))"
    using orders_run by blast
  have tbl: "resolve_table shop None ''orders'' = Inr orders_table"
    by (simp add: resolve_table_def shop_def)
  from cpa_without_primary_key [OF nopk run] obtain table where
    "resolve_table shop None ''orders'' = Inr table"
    and rows: "nrows orders_result = nrows (transform shop ''orders'' table)"
    and idx: "index_values orders_result = index_values (transform shop ''orders'' table)"
    by blast
  with tbl have "table = orders_table" by simp
  with rows idx nopk orders_run show ?thesis
    by (simp add: orders_result_def column_names_def)
qed

section \<open>The extension of a child table\<close>

lemma dict_keys_dict_set:
  "dict_keys (dict_set d k v) = (if k \<in> set (dict_keys d) then dict_keys d else dict_keys d @ [k])"
  by (induction d) (force simp: dict_keys_def)+

lemma map_fst_map_key: "map fst (map (\<lambda>(k, x). (f k, x)) xs) = map f (map fst xs)"
  by (induction xs) auto

lemma map_of_dict_set: "map_of (dict_set d k v) = (map_of d)(k \<mapsto> v)"
  by (induction d) (auto simp: fun_eq_iff)

lemma dict_keys_series_of_dict: "dict_keys (series_of_dict d) = dict_keys d"
  by (simp add: series_of_dict_def dict_keys_def split_beta)

lemma map_of_series_of_dict_present:
  "map_of d k = Some v \<Longrightarrow> \<not> is_na v \<Longrightarrow> map_of (series_of_dict d) k = Some v"
proof -
  assume a: "map_of d k = Some v" and n: "\<not> is_na v"
  have "map_of (map (\<lambda>(k, v). (k, if is_na v then Scalar NaN else v)) d) k = Some v"
    using a n by (induction d) (auto split: if_splits)
  with a show ?thesis by (simp add: series_of_dict_def)
qed

lemma map_of_prefixed:
  "map_of (map (\<lambda>(k, v). (p @ k, v)) d) (p @ k) = map_of d k"
  by (induction d) auto

lemma extension_row_keys:
  assumes "extension_row e child_name t v = Inr row"
  shows "\<exists>d. get_model_dict e (loc_rows t v) = Inr d
    \<and> map fst row = map (\<lambda>k. ''__'' @ child_name @ ''__'' @ k)
         (dict_keys (dict_set d ''child_rows'' (Scalar (Num (real (nrows (loc_rows t v)))))))
    \<and> map_of row (''__'' @ child_name @ ''__child_rows'')
         = Some (Scalar (Num (real (nrows (loc_rows t v)))))"
proof -
  let ?n = "Scalar (Num (real (nrows (loc_rows t v))))"
  from assms obtain d where d: "get_model_dict e (loc_rows t v) = Inr d"
    and row: "row = map (\<lambda>(k, x). ((''__'' @ child_name @ ''__'') @ k, x))
                      (series_of_dict (dict_set d ''child_rows'' ?n))"
    by (auto simp: extension_row_def Let_def split: sum.splits)
  have keys: "map fst row = map (\<lambda>k. ''__'' @ child_name @ ''__'' @ k)
         (dict_keys (dict_set d ''child_rows'' ?n))"
    unfolding row map_fst_map_key
    using dict_keys_series_of_dict [of "dict_set d ''child_rows'' ?n"]
    by (simp add: dict_keys_def)
  have "map_of (series_of_dict (dict_set d ''child_rows'' ?n)) ''child_rows'' = Some ?n"
    by (rule map_of_series_of_dict_present) (simp_all add: map_of_dict_set is_na_def)
  then have "map_of row ((''__'' @ child_name @ ''__'') @ ''child_rows'') = Some ?n"
    unfolding row by (simp only: map_of_prefixed)
  with d keys show ?thesis by simp
qed

lemma extension_rows_all:
  "extension_rows e child_name t vs = Inr rows \<Longrightarrow>
   list_all2 (\<lambda>v row. extension_row e child_name t v = Inr row) vs rows"
  by (induction vs arbitrary: rows) (auto split: sum.splits)

lemma column_names_data_frame:
  "column_names (data_frame rows idx d) = unique (concat (map (map fst) rows))"
  by (simp add: data_frame_def column_names_def comp_def)

lemma get_column_data_frame:
  "name \<in> set (column_names (data_frame rows idx d)) \<Longrightarrow>
   get_column (data_frame rows idx d) name
     = Some \<lparr>dtype = infer_dtype (map (\<lambda>row. row_cell row name) rows),
             cells = map (\<lambda>row. row_cell row name) rows\<rparr>"
proof -
  have "map_of (map (\<lambda>n. (n, f n)) ns) name = Some (f name)" if "name \<in> set ns"
    for ns and f :: "string \<Rightarrow> column"
    using that by (induction ns) auto
  then show "name \<in> set (column_names (data_frame rows idx d)) \<Longrightarrow> ?thesis"
    by (simp add: column_names_data_frame) (simp add: data_frame_def get_column_def Let_def)
qed

lemma get_extension_structure:
  assumes "get_extension e child_name child_table foreign_key = Inr extension"
  shows "\<exists>fk_column indexed rows.
      get_column child_table foreign_key = Some fk_column
    \<and> set_index child_table foreign_key = Inr indexed
    \<and> index_values extension = unique (cells fk_column)
    \<and> list_all2 (\<lambda>v row. \<exists>d. get_model_dict e (loc_rows indexed v) = Inr d
          \<and> map fst row = map (\<lambda>k. ''__'' @ child_name @ ''__'' @ k)
               (dict_keys (dict_set d ''child_rows''
                  (Scalar (Num (real (nrows (loc_rows indexed v)))))))
          \<and> map_of row (''__'' @ child_name @ ''__child_rows'')
               = Some (Scalar (Num (real (nrows (loc_rows indexed v))))))
        (unique (cells fk_column)) rows
    \<and> column_names extension = unique (concat (map (map fst) rows))
    \<and> (\<forall>name \<in> set (column_names extension).
          (\<exists>k. name = ''__'' @ child_name @ ''__'' @ k)
        \<and> get_column extension name
            = Some \<lparr>dtype = infer_dtype (map (\<lambda>row. row_cell row name) rows),
                    cells = map (\<lambda>row. row_cell row name) rows\<rparr>)"
proof -
  from assms obtain fk_column indexed rows where
    fk: "get_column child_table foreign_key = Some fk_column"
    and ix: "set_index child_table foreign_key = Inr indexed"
    and rs: "extension_rows e child_name indexed (unique (cells fk_column)) = Inr rows"
    and ex: "extension = data_frame rows (unique (cells fk_column)) (dtype fk_column)"
    by (auto simp: get_extension_def Let_def split: option.splits sum.splits)
  let ?R = "\<lambda>v row. \<exists>d. get_model_dict e (loc_rows indexed v) = Inr d
          \<and> map fst row = map (\<lambda>k. ''__'' @ child_name @ ''__'' @ k)
               (dict_keys (dict_set d ''child_rows''
                  (Scalar (Num (real (nrows (loc_rows indexed v)))))))
          \<and> map_of row (''__'' @ child_name @ ''__child_rows'')
               = Some (Scalar (Num (real (nrows (loc_rows indexed v)))))"
  have all: "list_all2 ?R (unique (cells fk_column)) rows"
    using extension_rows_all [OF rs]
    by (rule list.rel_mono_strong) (rule extension_row_keys)
  have pre: "\<exists>k. name = ''__'' @ child_name @ ''__'' @ k"
    if "name \<in> set (column_names extension)" for name
  proof -
    from that obtain row where row: "row \<in> set rows" and n: "name \<in> set (map fst row)"
      by (auto simp: ex column_names_data_frame)
    from list_all2_right_witness [OF all row] obtain v d where
      "map fst row = map (\<lambda>k. ''__'' @ child_name @ ''__'' @ k)
               (dict_keys (dict_set d ''child_rows''
                  (Scalar (Num (real (nrows (loc_rows indexed v)))))))"
      by blast
    with n have "name \<in> (\<lambda>k. ''__'' @ child_name @ ''__'' @ k) `
        set (dict_keys (dict_set d ''child_rows''
                  (Scalar (Num (real (nrows (loc_rows indexed v)))))))"
      by (simp only: set_map)
    then show ?thesis by blast
  qed

  have idx: "index_values extension = unique (cells fk_column)"
    by (simp add: ex data_frame_def)
  have names: "column_names extension = unique (concat (map (map fst) rows))"
    by (simp add: ex column_names_data_frame)
  have cols: "\<forall>name \<in> set (column_names extension).
          (\<exists>k. name = ''__'' @ child_name @ ''__'' @ k)
        \<and> get_column extension name
            = Some \<lparr>dtype = infer_dtype (map (\<lambda>row. row_cell row name) rows),
                    cells = map (\<lambda>row. row_cell row name) rows\<rparr>"
  proof (intro ballI conjI)
    fix name assume n: "name \<in> set (column_names extension)"
    then show "\<exists>k. name = ''__'' @ child_name @ ''__'' @ k" by (rule pre)
    from n show "get_column extension name
            = Some \<lparr>dtype = infer_dtype (map (\<lambda>row. row_cell row name) rows),
                    cells = map (\<lambda>row. row_cell row name) rows\<rparr>"
      unfolding ex by (rule get_column_data_frame)
  qed
  show ?thesis
    using fk ix idx all names cols by blast
qed

text \<open>
  Claim C7: the extension of a child has one row per foreign key value, in order of
  first appearance. The row of a value holds the keys of the flattened model of its group
  of child rows, with \<^verbatim>\<open>child_rows\<close> set to the number of rows of the group, each key
  prefixed with \<^verbatim>\<open>__<child_name>__\<close>. The columns of the extension are exactly the keys
  of these rows, so every column name is such a prefixed key, and a column holds the
  values of the rows under its name.
\<close>

theorem get_extension_columns:
  assumes "get_extension e child_name child_table foreign_key = Inr extension"
  shows "\<exists>fk_column indexed rows.
      get_column child_table foreign_key = Some fk_column
    \<and> set_index child_table foreign_key = Inr indexed
    \<and> index_values extension = unique (cells fk_column)
    \<and> list_all2 (\<lambda>v row. \<exists>d. get_model_dict e (loc_rows indexed v) = Inr d
          \<and> map fst row = map (\<lambda>k. ''__'' @ child_name @ ''__'' @ k)
               (dict_keys (dict_set d ''child_rows''
                  (Scalar (Num (real (nrows (loc_rows indexed v)))))))
          \<and> map_of row (''__'' @ child_name @ ''__child_rows'')
               = Some (Scalar (Num (real (nrows (loc_rows indexed v))))))
        (unique (cells fk_column)) rows
    \<and> column_names extension = unique (concat (map (map fst) rows))
    \<and> (\<forall>name \<in> set (column_names extension).
          (\<exists>k. name = ''__'' @ child_name @ ''__'' @ k)
        \<and> get_column extension name
            = Some \<lparr>dtype = infer_dtype (map (\<lambda>row. row_cell row name) rows),
                    cells = map (\<lambda>row. row_cell row name) rows\<rparr>)"
  using assms by (rule get_extension_structure)

section \<open>The extension of the orders\<close>

lemmas frame_eval =
  column_names_def get_column_def set_column_def nrows_def is_na_def fillna_def
  fill_column_def fill_value_of_def series_mean_def List.map_filter_simps
  impute_frame_def fit_model_def

lemmas flatten_eval =
  flatten_dict_def flatten_array_def join_prefix_def IGNORED_DICT_KEYS_def
  str_nat.simps digit_char_def

lemmas shop_eval =
  shop_def shop_fit_def shop_to_dict_def shop_transform_def encode_model_def
  covariance_values_def np_tril_def enumerate_eq_zip get_model_dict_def

lemmas extension_eval =
  get_extension_def set_index_def unique_def extension_row_def loc_rows_def select_rows_def
  series_of_dict_def numeric_or_na_def data_frame_def row_cell_def infer_dtype_def

lemma orders_extension_run:
  "get_extension shop ''orders'' orders_result ''user_id'' = Inr orders_extension"
  by (simp add: orders_result_def orders_extension_def extension_eval frame_eval shop_eval
      flatten_eval)

text \<open>
  The claim at the orders of the example schema: the flattened key \<^verbatim>\<open>mu__0\<close> of the child
  \<^verbatim>\<open>orders\<close> is the column \<^verbatim>\<open>__orders__mu__0\<close>, and \<^verbatim>\<open>__orders__child_rows\<close> holds the
  sizes 2 and 1 of the two groups.
\<close>

theorem get_extension_columns_witness:
  "get_extension shop ''orders'' orders_result ''user_id'' = Inr orders_extension
   \<and> column_names orders_extension
       = [''__orders__covariance__0__0'', ''__orders__distribs__amount__std'',
          ''__orders__mu__0'', ''__orders__child_rows'']
   \<and> ''__'' @ ''orders'' @ ''__'' @ ''mu__0'' = ''__orders__mu__0''
   \<and> index_values orders_extension = [Scalar (Num 1), Scalar (Num 3)]
   \<and> get_column orders_extension ''__orders__child_rows''
       = Some \<lparr>dtype = Float64, cells = [Scalar (Num 2), Scalar (Num 1)]\<rparr>"
  using orders_extension_run get_extension_columns [OF orders_extension_run]
  by (simp add: orders_extension_def column_names_def get_column_def)

section \<open>Flattening is deterministic\<close>

lemma dict_update_keys_cong:
  "dict_keys r = dict_keys r' \<Longrightarrow> dict_keys other = dict_keys other' \<Longrightarrow>
   dict_keys (dict_update r other) = dict_keys (dict_update r' other')"
proof (induction other arbitrary: other' r r')
  case Nil
  then show ?case by (simp add: dict_keys_def)
next
  case (Cons p other)
  obtain k v where p: "p = (k, v)" by (cases p)
  from Cons.prems(2) p obtain v' rest where o': "other' = (k, v') # rest"
    and rest: "dict_keys other = dict_keys rest"
    by (cases other') (auto simp: dict_keys_def)
  have "dict_keys (dict_set r k v) = dict_keys (dict_set r' k v')"
    using Cons.prems(1) by (simp add: dict_keys_dict_set)
  from Cons.IH [OF this rest] show ?case by (simp add: p o')
qed

lemma flatten_array_loop_keys:
  "list_all2 same_structure xs ys \<Longrightarrow> dict_keys r = dict_keys r' \<Longrightarrow>
   dict_keys (flatten_array_loop i xs p r) = dict_keys (flatten_array_loop i ys p r')"
proof (induction i xs p r arbitrary: ys r' rule: flatten_array_loop.induct)
  case (1 index prefix result)
  then show ?case by simp
next
  case (2 index zs rest prefix result)
  from "2.prems"(1) obtain zs' rest' where ys: "ys = PyList zs' # rest'"
    and z: "list_all2 same_structure zs zs'" and r: "list_all2 same_structure rest rest'"
    by (cases ys) (auto elim: same_structure.elims)
  have inner: "dict_keys (flatten_array_loop 0 zs (join_prefix prefix (str_nat index)) [])
      = dict_keys (flatten_array_loop 0 zs' (join_prefix prefix (str_nat index)) [])"
    by (rule "2.IH"(1) [OF z]) simp
  show ?case
    unfolding ys
    by (simp, rule "2.IH"(2) [OF r], rule dict_update_keys_cong [OF "2.prems"(2) inner])
next
  case (3 index zs rest prefix result)
  from "3.prems"(1) obtain zs' rest' where ys: "ys = NdArray zs' # rest'"
    and z: "list_all2 same_structure zs zs'" and r: "list_all2 same_structure rest rest'"
    by (cases ys) (auto elim: same_structure.elims)
  have inner: "dict_keys (flatten_array_loop 0 zs (join_prefix prefix (str_nat index)) [])
      = dict_keys (flatten_array_loop 0 zs' (join_prefix prefix (str_nat index)) [])"
    by (rule "3.IH"(1) [OF z]) simp
  show ?case
    unfolding ys
    by (simp, rule "3.IH"(2) [OF r], rule dict_update_keys_cong [OF "3.prems"(2) inner])
next
  case "4_1"
  show ?case
    using "4_1.prems"
    by (cases ys)
       (auto elim!: same_structure.elims intro!: "4_1.IH" simp: dict_keys_dict_set)
next
  case "4_2"
  show ?case
    using "4_2.prems"
    by (cases ys)
       (auto elim!: same_structure.elims intro!: "4_2.IH" simp: dict_keys_dict_set)
qed

lemma same_structure_isinstance:
  "same_structure v v' \<Longrightarrow> isinstance_dict_list v' = isinstance_dict_list v"
  by (cases v; cases v') simp_all

lemma flatten_dict_loop_keys:
  "list_all2 (\<lambda>(k, v) (k', v'). k = k' \<and> same_structure v v') items items' \<Longrightarrow>
   dict_keys r = dict_keys r' \<Longrightarrow>
   dict_keys (flatten_dict_loop items p r) = dict_keys (flatten_dict_loop items' p r')"
proof (induction items p r arbitrary: items' r' rule: flatten_dict_loop.induct)
  case (1 prefix result)
  then show ?case by simp
next
  case (2 key v items prefix result)
  from "2.prems"(1) obtain v' rest' where it: "items' = (key, v') # rest'"
    and sv: "same_structure v v'"
    and rest: "list_all2 (\<lambda>(k, v) (k', v'). k = k' \<and> same_structure v v') items rest'"
    by (cases items') auto
  note inst = same_structure_isinstance [OF sv]
  show ?case
  proof (cases "key \<in> set IGNORED_DICT_KEYS \<and> \<not> isinstance_dict_list v")
    case True
    from "2.IH"(1) [OF True rest "2.prems"(2)] True inst show ?thesis
      by (simp add: it)
  next
    case False
    show ?thesis
    proof (cases v)
      case (Scalar s)
      with sv obtain s' where v': "v' = Scalar s'" by (cases v') simp_all
      have "dict_keys (dict_set result (join_prefix prefix key) v)
          = dict_keys (dict_set r' (join_prefix prefix key) v')"
        using "2.prems"(2) by (simp add: dict_keys_dict_set)
      from "2.IH"(2) [OF False Scalar rest this] False inst Scalar v' show ?thesis
        by (simp add: it)
    next
      case (PyDict d)
      with sv obtain d' where v': "v' = PyDict d'"
        and dd: "list_all2 (\<lambda>(k, v) (k', v'). k = k' \<and> same_structure v v') d d'"
        by (cases v') simp_all
      have inner: "dict_keys (flatten_dict_loop d (join_prefix prefix key) [])
          = dict_keys (flatten_dict_loop d' (join_prefix prefix key) [])"
        by (rule "2.IH"(3) [OF False PyDict dd]) simp
      from "2.IH"(4) [OF False PyDict rest dict_update_keys_cong [OF "2.prems"(2) inner]]
        False inst PyDict v'
      show ?thesis by (simp add: it)
    next
      case (PyList xs)
      with sv obtain ys where v': "v' = PyList ys" and xy: "list_all2 same_structure xs ys"
        by (cases v') simp_all
      have inner: "dict_keys (flatten_array xs (join_prefix prefix key))
          = dict_keys (flatten_array ys (join_prefix prefix key))"
        unfolding flatten_array_def by (rule flatten_array_loop_keys [OF xy]) simp
      from "2.IH"(5) [OF False PyList rest dict_update_keys_cong [OF "2.prems"(2) inner]]
        False inst PyList v'
      show ?thesis by (simp add: it)
    next
      case (NdArray xs)
      with sv obtain ys where v': "v' = NdArray ys" and xy: "list_all2 same_structure xs ys"
        by (cases v') simp_all
      have inner: "dict_keys (flatten_array xs (join_prefix prefix key))
          = dict_keys (flatten_array ys (join_prefix prefix key))"
        unfolding flatten_array_def by (rule flatten_array_loop_keys [OF xy]) simp
      from "2.IH"(6) [OF False NdArray rest dict_update_keys_cong [OF "2.prems"(2) inner]]
        False inst NdArray v'
      show ?thesis by (simp add: it)
    qed
  qed
qed

lemma dict_update_distinct:
  "distinct (dict_keys r) \<Longrightarrow> distinct (dict_keys (dict_update r other))"
  by (induction other arbitrary: r) (auto simp: dict_keys_dict_set)

lemma flatten_array_loop_distinct:
  "distinct (dict_keys r) \<Longrightarrow> distinct (dict_keys (flatten_array_loop i xs p r))"
  by (induction i xs p r rule: flatten_array_loop.induct)
     (simp_all add: dict_update_distinct dict_keys_dict_set)

lemma flatten_dict_loop_distinct:
  "distinct (dict_keys r) \<Longrightarrow> distinct (dict_keys (flatten_dict_loop items p r))"
  by (induction items p r rule: flatten_dict_loop.induct)
     (auto simp: dict_update_distinct dict_keys_dict_set split: pyval.splits)

text \<open>
  Claim C9: flattening is deterministic. The flat mapping is a function of the nested
  input and the prefix alone, so the same input (or an input built identically, with its
  entries in the same order) gives the same keys, in the same order, with the same
  values. More than that, the keys and their order are fixed by the structure of the
  input alone, whatever its scalars are; and no key occurs twice in the result.
\<close>

theorem flatten_dict_deterministic:
  "(nested' = nested \<longrightarrow> flatten_dict nested' prefix = flatten_dict nested prefix)
   \<and> (same_structure (PyDict nested) (PyDict nested') \<longrightarrow>
        dict_keys (flatten_dict nested' prefix) = dict_keys (flatten_dict nested prefix))
   \<and> distinct (dict_keys (flatten_dict nested prefix))"
proof (intro conjI impI)
  assume "nested' = nested"
  then show "flatten_dict nested' prefix = flatten_dict nested prefix" by simp
next
  assume "same_structure (PyDict nested) (PyDict nested')"
  then have "list_all2 (\<lambda>(k, v) (k', v'). k = k' \<and> same_structure v v') nested nested'"
    by simp
  then show "dict_keys (flatten_dict nested' prefix) = dict_keys (flatten_dict nested prefix)"
    unfolding flatten_dict_def by (rule flatten_dict_loop_keys [symmetric]) simp
next
  show "distinct (dict_keys (flatten_dict nested prefix))"
    unfolding flatten_dict_def by (rule flatten_dict_loop_distinct) (simp add: dict_keys_def)
qed


text \<open>
  The claim at two exports of the same structure.
\<close>

theorem flatten_dict_deterministic_witness:
  "flatten_dict params_a [] =
     [(''covariance__0__0'', Scalar (Num 4)), (''covariance__1__0'', Scalar (Num 1)),
      (''covariance__1__1'', Scalar (Num 9)), (''mu__0'', Scalar (Num 3)),
      (''mu__1'', Scalar (Num 5))]
   \<and> same_structure (PyDict params_a) (PyDict params_b)
   \<and> dict_keys (flatten_dict params_b []) = dict_keys (flatten_dict params_a [])
   \<and> dict_keys (flatten_dict params_b [])
       = [''covariance__0__0'', ''covariance__1__0'', ''covariance__1__1'', ''mu__0'', ''mu__1'']"
proof -
  have a: "flatten_dict params_a [] =
     [(''covariance__0__0'', Scalar (Num 4)), (''covariance__1__0'', Scalar (Num 1)),
      (''covariance__1__1'', Scalar (Num 9)), (''mu__0'', Scalar (Num 3)),
      (''mu__1'', Scalar (Num 5))]"
    by (simp add: params_a_def flatten_dict_def flatten_array_def join_prefix_def
        IGNORED_DICT_KEYS_def str_nat.simps digit_char_def)
  have s: "same_structure (PyDict params_a) (PyDict params_b)"
    by (simp add: params_a_def params_b_def)
  show ?thesis
    using a s flatten_dict_deterministic [of params_a params_a "[]"]
      flatten_dict_deterministic [of params_b params_a "[]"]
    by (simp add: dict_keys_def)
qed

section \<open>Merging an extension onto its parent\<close>








lemma map_of_renamed_away:
  assumes "\<And>k. k \<in> fst ` set xs \<Longrightarrow> ren k \<noteq> N"
  shows "map_of (map (\<lambda>(k, v). (ren k, g v)) xs) N = None"
  using assms
proof (induction xs)
  case Nil
  show ?case by simp
next
  case (Cons p xs)
  obtain a b where p: "p = (a, b)" by (cases p)
  have here: "ren a \<noteq> N"
    using Cons.prems [of a] by (simp add: p)
  have "map_of (map (\<lambda>(k, v). (ren k, g v)) xs) N = None"
    by (rule Cons.IH) (simp add: Cons.prems)
  with here show ?case by (auto simp: p)
qed

text \<open>A column name that no suffix of the merge can produce.\<close>

definition plain_name :: "string \<Rightarrow> bool" where
  "plain_name N \<longleftrightarrow> (\<forall>p. N \<noteq> p @ ''_x'' \<and> N \<noteq> p @ ''_y'')"


lemma merge_left_columns:
  "columns (merge_left L R) =
     map (\<lambda>(name, col).
            (if name \<in> set (column_names L) \<and> name \<in> set (column_names R) then name @ ''_x'' else name,
             col\<lparr>cells := left_cells (index_values L) (index_values R) (cells col)\<rparr>)) (columns L) @
     map (\<lambda>(name, col).
            (if name \<in> set (column_names L) \<and> name \<in> set (column_names R) then name @ ''_y'' else name,
             \<lparr>dtype = (if \<exists>l \<in> set (index_values L). l \<notin> set (index_values R)
                        then upcast (dtype col) else dtype col),
              cells = right_cells (index_values L) (index_values R) (cells col)\<rparr>)) (columns R)"
  by (simp add: merge_left_def Let_def conj_commute)



lemma get_column_merge_left_clash:
  assumes "plain_name N" and "N \<in> set (column_names L)" and "N \<in> set (column_names R)"
  shows "get_column (merge_left L R) N = None"
proof -
  let ?renL = "\<lambda>name. if name \<in> set (column_names L) \<and> name \<in> set (column_names R)
                     then name @ ''_x'' else name"
  let ?renR = "\<lambda>name. if name \<in> set (column_names L) \<and> name \<in> set (column_names R)
                     then name @ ''_y'' else name"
  let ?g = "\<lambda>col. \<lparr>dtype = (if \<exists>l \<in> set (index_values L). l \<notin> set (index_values R)
                        then upcast (dtype col) else dtype col),
              cells = right_cells (index_values L) (index_values R) (cells col)\<rparr>"
  have "?renL k \<noteq> N" for k
    using assms by (auto simp: plain_name_def)
  then have left: "map_of (map (\<lambda>(k, v). (?renL k,
        v\<lparr>cells := left_cells (index_values L) (index_values R) (cells v)\<rparr>)) (columns L)) N = None"
    by (intro map_of_renamed_away) simp
  have "?renR k \<noteq> N" for k
    using assms by (auto simp: plain_name_def)
  then have right: "map_of (map (\<lambda>(k, v). (?renR k, ?g v)) (columns R)) N = None"
    by (intro map_of_renamed_away) simp
  show ?thesis
    using left right by (simp add: get_column_def merge_left_columns map_add_def)
qed


section \<open>The count column through the loop over the children\<close>















section \<open>The traversal: what a parent gets from its children\<close>















end
